theory Spec2Isabelle
  imports Complex_Main
begin

section \<open>Data model of package youtube\<close>

text \<open>
  Go strings are byte sequences; a \<^typ>\<open>string\<close> here is the list of those bytes and
  \<^term>\<open>length\<close> is Go's \<^verbatim>\<open>len\<close>. A \<^verbatim>\<open>float64\<close> is modelled by the real number it
  denotes: finite values with exact arithmetic, so NaN, infinities and rounding are outside
  the model. Go's \<^verbatim>\<open>int\<close> is modelled by \<^typ>\<open>int\<close>; the values the formatter computes
  stay far below 64 bits for every start time below \<open>2 ^ 63\<close> seconds.
\<close>

record TranscriptSegment =
  Text :: string
  StartTime :: real
  Duration :: real

record Transcript =
  Segments :: "TranscriptSegment list"

text \<open>
  \<^verbatim>\<open>TranscriptResponse\<close> as a value: the pointer \<^verbatim>\<open>Raw\<close> is an option (\<open>None\<close> is nil),
  the slice \<^verbatim>\<open>Formatted\<close> a list (\<open>[]\<close> is nil: the grouper returns either nil or a slice
  with at least one element).
\<close>

record TranscriptResponse =
  Title :: string
  Raw :: "Transcript option"
  Formatted :: "string list"

section \<open>Formatting a start time: \<^verbatim>\<open>formatTimeText\<close>\<close>

text \<open>Go's conversion \<^verbatim>\<open>int(f)\<close> of a float drops the fraction (rounds toward zero).\<close>

definition go_int :: "real \<Rightarrow> int" where
  "go_int x = (if x < 0 then - \<lfloor>- x\<rfloor> else \<lfloor>x\<rfloor>)"

definition digit_char :: "nat \<Rightarrow> char" where
  "digit_char d = ''0123456789'' ! d"

fun decimal :: "nat \<Rightarrow> string" where
  "decimal n = (if n < 10 then [digit_char n] else decimal (n div 10) @ [digit_char (n mod 10)])"

declare decimal.simps [simp del]

text \<open>
  \<^verbatim>\<open>fmt.Sprintf("%02d", n)\<close>: the decimal digits of \<open>n\<close>, padded with zeros on the left to
  a width of at least two; a negative number's sign comes first and counts for the width.
\<close>

definition pad0 :: "nat \<Rightarrow> string \<Rightarrow> string" where
  "pad0 w s = replicate (w - length s) CHR ''0'' @ s"

definition Sprintf_02d :: "int \<Rightarrow> string" where
  "Sprintf_02d n =
     (if n < 0 then CHR ''-'' # pad0 1 (decimal (nat (- n))) else pad0 2 (decimal (nat n)))"

definition formatTimeText :: "real \<Rightarrow> string \<Rightarrow> string" where
  "formatTimeText startTime text =
     (let hours = go_int (startTime / 3600);
          minutes = go_int ((startTime - of_int (hours * 3600)) / 60);
          seconds = go_int (startTime - of_int (hours * 3600 + minutes * 60))
      in if hours > 0
         then ''('' @ Sprintf_02d hours @ '':'' @ Sprintf_02d minutes @ '':'' @
              Sprintf_02d seconds @ '') '' @ text
         else ''('' @ Sprintf_02d minutes @ '':'' @ Sprintf_02d seconds @ '') '' @ text)"

text \<open>The two-digit rendering of a number below 100, as the specification words it.\<close>

definition two_digits :: "nat \<Rightarrow> string" where
  "two_digits n = [digit_char (n div 10), digit_char (n mod 10)]"

text \<open>
  \<^verbatim>\<open>(HH:MM:SS) \<close> and \<^verbatim>\<open>(MM:SS) \<close> with fields of exactly two digits, as the
  specification writes them.
\<close>

definition hms_shape :: "string \<Rightarrow> bool" where
  "hms_shape str =
     (\<exists>h m s. h < 100 \<and> m < 100 \<and> s < 100 \<and>
        str = ''('' @ two_digits h @ '':'' @ two_digits m @ '':'' @ two_digits s @ '') '')"

definition ms_shape :: "string \<Rightarrow> bool" where
  "ms_shape str =
     (\<exists>m s. m < 100 \<and> s < 100 \<and> str = ''('' @ two_digits m @ '':'' @ two_digits s @ '') '')"

section \<open>The interval grouper: \<^verbatim>\<open>Client.FormatTranscript\<close>\<close>

text \<open>
  The loop over the segments carries \<^verbatim>\<open>formatted\<close>, \<^verbatim>\<open>currentStart\<close> and the contents of
  the string builder \<^verbatim>\<open>groupText\<close>.
\<close>

fun group_loop ::
  "real \<Rightarrow> TranscriptSegment list \<Rightarrow> string list \<Rightarrow> real \<Rightarrow> string \<Rightarrow> string list \<times> real \<times> string"
where
  "group_loop intervalSeconds [] formatted currentStart groupText =
     (formatted, currentStart, groupText)"
| "group_loop intervalSeconds (segment # rest) formatted currentStart groupText =
     (let flushed = (StartTime segment - currentStart \<ge> intervalSeconds \<and> length groupText > 0);
          formatted1 = (if flushed then formatted @ [formatTimeText currentStart groupText]
                        else formatted);
          currentStart1 = (if flushed then StartTime segment else currentStart);
          groupText1 = (if flushed then [] else groupText);
          groupText2 = (if length groupText1 > 0 then groupText1 @ '' '' else groupText1)
      in group_loop intervalSeconds rest formatted1 currentStart1 (groupText2 @ Text segment))"

text \<open>After the loop, a pending group that is not empty is flushed.\<close>

definition finish :: "string list \<times> real \<times> string \<Rightarrow> string list" where
  "finish r = (case r of (formatted, currentStart, groupText) \<Rightarrow>
                 if length groupText > 0 then formatted @ [formatTimeText currentStart groupText]
                 else formatted)"

text \<open>
  The function's error result is nil on every path, so the model returns the slice alone.
\<close>

definition FormatTranscript :: "Transcript option \<Rightarrow> real \<Rightarrow> string list" where
  "FormatTranscript transcript intervalSeconds =
     (case transcript of
        None \<Rightarrow> []
      | Some t \<Rightarrow>
          (case Segments t of
             [] \<Rightarrow> []
           | first # _ \<Rightarrow>
               finish (group_loop intervalSeconds (Segments t) [] (StartTime first) [])))"

subsection \<open>The grouper as the specification describes it\<close>






section \<open>Library functions the code calls\<close>

text \<open>
  The functions of the Go standard library that the code relies on and that are not part
  of this repository are parameters of the model: \<^verbatim>\<open>strconv.ParseFloat(s, 64)\<close> (\<open>None\<close>
  when it returns an error), \<^verbatim>\<open>strings.TrimSpace\<close>, the \<^verbatim>\<open>encoding/xml\<close> decoder applied
  to the \<^verbatim>\<open>ttmlTranscript\<close> struct (\<open>None\<close> when decoding fails) and \<^verbatim>\<open>url.Parse\<close> (\<open>None\<close>
  when it returns an error). Every theorem below holds for any behaviour of them.
\<close>

record Paragraph =
  Begin :: string
  End :: string
  PText :: string

record URL =
  Host :: string

record golib =
  ParseFloat :: "string \<Rightarrow> real option"
  TrimSpace :: "string \<Rightarrow> string"
  xml_Decode :: "string \<Rightarrow> Paragraph list option"
  url_Parse :: "string \<Rightarrow> URL option"

text \<open>The byte-level string functions are modelled directly.\<close>

definition HasPrefix :: "string \<Rightarrow> string \<Rightarrow> bool" where
  "HasPrefix s pre = (take (length pre) s = pre)"

definition HasSuffix :: "string \<Rightarrow> string \<Rightarrow> bool" where
  "HasSuffix s suf = (length suf \<le> length s \<and> drop (length s - length suf) s = suf)"

definition TrimPrefix :: "string \<Rightarrow> string \<Rightarrow> string" where
  "TrimPrefix s pre = (if HasPrefix s pre then drop (length pre) s else s)"

definition TrimSuffix :: "string \<Rightarrow> string \<Rightarrow> string" where
  "TrimSuffix s suf = (if HasSuffix s suf then take (length s - length suf) s else s)"

text \<open>
  \<^verbatim>\<open>strings.Split\<close> with a separator of one byte: it returns at least one field, also
  for the empty input.
\<close>

fun Split :: "string \<Rightarrow> char \<Rightarrow> string list" where
  "Split [] sep = [[]]"
| "Split (c # cs) sep =
     (if c = sep then [] # Split cs sep
      else (case Split cs sep of [] \<Rightarrow> [[c]] | part # parts \<Rightarrow> (c # part) # parts))"

text \<open>\<^verbatim>\<open>strings.ToLower\<close> on the ASCII letters; other bytes stay as they are.\<close>

definition lower_char :: "char \<Rightarrow> char" where
  "lower_char c =
     (case map_of (zip ''ABCDEFGHIJKLMNOPQRSTUVWXYZ'' ''abcdefghijklmnopqrstuvwxyz'') c of
        None \<Rightarrow> c
      | Some l \<Rightarrow> l)"

definition ToLower :: "string \<Rightarrow> string" where
  "ToLower s = map lower_char s"

section \<open>The time codec: \<^verbatim>\<open>parseTime\<close>\<close>

datatype time_error = InvalidTimeFormat string | NumError string

definition parseTime :: "golib \<Rightarrow> string \<Rightarrow> time_error + real" where
  "parseTime lib timeStr =
     (if HasSuffix timeStr ''s''
      then (case ParseFloat lib (TrimSuffix timeStr ''s'') of
              None \<Rightarrow> Inl (NumError (TrimSuffix timeStr ''s''))
            | Some v \<Rightarrow> Inr v)
      else
        (let parts = Split timeStr CHR '':'' in
         if length parts \<noteq> 3 then Inl (InvalidTimeFormat timeStr)
         else
           (case ParseFloat lib (parts ! 0) of
              None \<Rightarrow> Inl (NumError (parts ! 0))
            | Some hours \<Rightarrow>
                (case ParseFloat lib (parts ! 1) of
                   None \<Rightarrow> Inl (NumError (parts ! 1))
                 | Some minutes \<Rightarrow>
                     (case ParseFloat lib (parts ! 2) of
                        None \<Rightarrow> Inl (NumError (parts ! 2))
                      | Some seconds \<Rightarrow> Inr (hours * 3600 + minutes * 60 + seconds))))))"

text \<open>
  The colon form in the specification's words: three fields without a colon, joined by
  colons.
\<close>

definition colon_fields :: "string \<Rightarrow> string \<Rightarrow> string \<Rightarrow> string \<Rightarrow> bool" where
  "colon_fields timeStr h m s =
     (timeStr = h @ '':'' @ m @ '':'' @ s \<and>
      CHR '':'' \<notin> set h \<and> CHR '':'' \<notin> set m \<and> CHR '':'' \<notin> set s)"

section \<open>The timed-text parser: \<^verbatim>\<open>parseTTMLTranscript\<close>\<close>

datatype xml_error = FailedToDecodeXML

fun paragraphs_loop :: "golib \<Rightarrow> Paragraph list \<Rightarrow> TranscriptSegment list \<Rightarrow> TranscriptSegment list" where
  "paragraphs_loop lib [] segments = segments"
| "paragraphs_loop lib (p # ps) segments =
     (case parseTime lib (Begin p) of
        Inl err \<Rightarrow> paragraphs_loop lib ps segments
      | Inr startTime \<Rightarrow>
          (case parseTime lib (End p) of
             Inl err \<Rightarrow> paragraphs_loop lib ps segments
           | Inr endTime \<Rightarrow>
               (let segment = \<lparr>Text = TrimSpace lib (PText p), StartTime = startTime,
                                Duration = endTime - startTime\<rparr>
                in if Text segment \<noteq> [] then paragraphs_loop lib ps (segments @ [segment])
                   else paragraphs_loop lib ps segments)))"

definition parseTTMLTranscript :: "golib \<Rightarrow> string \<Rightarrow> xml_error + TranscriptSegment list" where
  "parseTTMLTranscript lib body =
     (case xml_Decode lib body of
        None \<Rightarrow> Inl FailedToDecodeXML
      | Some paragraphs \<Rightarrow> Inr (paragraphs_loop lib paragraphs []))"

text \<open>
  The segment the specification assigns to one paragraph: none when \<^verbatim>\<open>begin\<close> or \<^verbatim>\<open>end\<close>
  does not parse or the trimmed text is empty.
\<close>

definition segment_of :: "golib \<Rightarrow> Paragraph \<Rightarrow> TranscriptSegment option" where
  "segment_of lib p =
     (case parseTime lib (Begin p) of
        Inl err \<Rightarrow> None
      | Inr b \<Rightarrow>
          (case parseTime lib (End p) of
             Inl err \<Rightarrow> None
           | Inr e \<Rightarrow>
               if TrimSpace lib (PText p) = [] then None
               else Some \<lparr>Text = TrimSpace lib (PText p), StartTime = b, Duration = e - b\<rparr>))"

section \<open>The identifier extractor: \<^verbatim>\<open>Transcript.ExtractVideoId\<close>\<close>

text \<open>
  The pattern is \<^verbatim>\<open>(?:\/|%3D|v=|vi=)([a-zA-Z0-9_-]{11})(?:[%#?&\/]|$)\<close>.
  \<^verbatim>\<open>FindStringSubmatch\<close> returns the leftmost match, trying the alternatives in the
  order written; the code reads the first group of the match.
\<close>

definition markers :: "string list" where
  "markers = [''/'', ''%3D'', ''v='', ''vi='']"

definition idchar :: "char \<Rightarrow> bool" where
  "idchar c = (c \<in> set ''abcdefghijklmnopqrstuvwxyzABCDEFGHIJKLMNOPQRSTUVWXYZ0123456789_-'')"

definition terminators :: "char list" where
  "terminators = ''%#?&/''"

definition token_here :: "string \<Rightarrow> bool" where
  "token_here rest =
     (length (take 11 rest) = 11 \<and> list_all idchar (take 11 rest) \<and>
      (case drop 11 rest of [] \<Rightarrow> True | c # after \<Rightarrow> c \<in> set terminators))"

definition match_here :: "string \<Rightarrow> string option" where
  "match_here s =
     (case find (\<lambda>m. HasPrefix s m \<and> token_here (drop (length m) s)) markers of
        None \<Rightarrow> None
      | Some m \<Rightarrow> Some (take 11 (drop (length m) s)))"

fun FindStringSubmatch :: "string \<Rightarrow> string option" where
  "FindStringSubmatch [] = match_here []"
| "FindStringSubmatch (c # cs) =
     (case match_here (c # cs) of
        Some submatch \<Rightarrow> Some submatch
      | None \<Rightarrow> FindStringSubmatch cs)"

definition ExtractVideoId :: "string \<Rightarrow> string" where
  "ExtractVideoId str =
     (if length str = 11 then str
      else (case FindStringSubmatch str of Some submatch \<Rightarrow> submatch | None \<Rightarrow> []))"

text \<open>
  The specification's reading of a match: at byte offset \<open>i\<close> stands a marker, right after
  it the token of eleven identifier characters, and right after the token one of the
  terminators or the end of the input.
\<close>

definition pattern_match :: "string \<Rightarrow> nat \<Rightarrow> string \<Rightarrow> bool" where
  "pattern_match s i tok =
     (\<exists>pre m post. s = pre @ m @ tok @ post \<and> length pre = i \<and> m \<in> set markers \<and>
        length tok = 11 \<and> list_all idchar tok \<and>
        (post = [] \<or> (\<exists>c after. post = c # after \<and> c \<in> set terminators)))"

definition first_match :: "string \<Rightarrow> string \<Rightarrow> bool" where
  "first_match s tok =
     (\<exists>i. pattern_match s i tok \<and> (\<forall>j tok'. pattern_match s j tok' \<longrightarrow> i \<le> j))"

section \<open>The domain check: \<^verbatim>\<open>Transcript.IsValidUrl\<close>\<close>

definition validDomains :: "string list" where
  "validDomains = [''youtube.com'', ''youtu.be'', ''m.youtube.com'']"

definition IsValidUrl :: "golib \<Rightarrow> string \<Rightarrow> bool" where
  "IsValidUrl lib urlStr =
     (case url_Parse lib urlStr of
        None \<Rightarrow> False
      | Some parsedURL \<Rightarrow>
          (let host = TrimPrefix (ToLower (Host parsedURL)) ''www.''
           in host \<in> set validDomains))"

section \<open>The transcript fetcher: \<^verbatim>\<open>Client.GetTranscript\<close>\<close>

record CaptionTrack =
  BaseURL :: string
  VssID :: string
  LanguageCode :: string

text \<open>
  \<^verbatim>\<open>playerResponse\<close> with its nested anonymous structs flattened:
  \<^verbatim>\<open>Captions.PlayerCaptionsTracklistRenderer.CaptionTracks\<close> and \<^verbatim>\<open>VideoDetails.Title\<close>.
\<close>

record playerResponse =
  CaptionTracks :: "CaptionTrack list"
  VideoDetails_Title :: string

text \<open>
  The provider, as the two requests see it. The POST to the player endpoint answers with
  a status code and the body decoded as JSON (\<open>None\<close> when decoding fails), or fails in
  transport (\<open>None\<close>); the GET of a caption URL answers with a status code and the bytes of
  the body (\<open>None\<close> when reading it fails), or fails in transport.
\<close>

record network =
  player_endpoint :: "string \<Rightarrow> (nat \<times> playerResponse option) option"
  caption_endpoint :: "string \<Rightarrow> (nat \<times> string option) option"

text \<open>
  Every request sent and every call of the cache is recorded as an event. A context is
  modelled by what \<^verbatim>\<open>ctx.Done()\<close> would report after a given number of events of the
  operation it was passed to: \<open>ctx n\<close> holds when the context is cancelled by the time
  \<open>n\<close> events have happened.
\<close>

datatype event = PostPlayer string | GetCaption string | CacheGet string | CacheSave string

type_synonym "context" = "nat \<Rightarrow> bool"

text \<open>The context that is cancelled once \<open>k\<close> events have happened, and live before.\<close>

definition cancelled_after :: "nat \<Rightarrow> context" where
  "cancelled_after k = (\<lambda>n. k \<le> n)"

datatype player_error =
    ContextDone
  | FailedToPerformRequest
  | UnexpectedStatus nat
  | FailedToDecodePlayerResponse

datatype fetch_error =
    FailedToGetPlayerResponse player_error
  | NoCaptionTracksAvailable
  | FailedToFetchTranscript
  | UnexpectedStatusCode nat
  | FailedToReadTTML
  | FailedToParseTTML xml_error

text \<open>
  \<^verbatim>\<open>getPlayerResponse\<close> builds its request with \<^verbatim>\<open>http.NewRequestWithContext(ctx, ...)\<close>,
  so \<^verbatim>\<open>httpClient.Do\<close> fails without sending when the context is already cancelled.
  Marshalling the fixed payload and building the request cannot fail.
\<close>

definition getPlayerResponse ::
  "network \<Rightarrow> context \<Rightarrow> string \<Rightarrow> event list \<times> (player_error + playerResponse)" where
  "getPlayerResponse net ctx videoID =
     (if ctx 0 then ([], Inl ContextDone)
      else
        (case player_endpoint net videoID of
           None \<Rightarrow> ([PostPlayer videoID], Inl FailedToPerformRequest)
         | Some (statusCode, body) \<Rightarrow>
             if statusCode \<noteq> 200 then ([PostPlayer videoID], Inl (UnexpectedStatus statusCode))
             else
               (case body of
                  None \<Rightarrow> ([PostPlayer videoID], Inl FailedToDecodePlayerResponse)
                | Some playerResp \<Rightarrow> ([PostPlayer videoID], Inr playerResp))))"

definition extractCaptionTracks :: "playerResponse \<Rightarrow> CaptionTrack list" where
  "extractCaptionTracks resp = CaptionTracks resp"

text \<open>
  The loop over the tracks: \<^verbatim>\<open>captionURL\<close> starts empty and takes the base URL of the
  first track that passes the test, where the loop breaks.
\<close>

fun tracks_loop :: "CaptionTrack list \<Rightarrow> string" where
  "tracks_loop [] = []"
| "tracks_loop (track # rest) =
     (if HasPrefix (VssID track) ''.en'' \<or> LanguageCode track = ''en'' then BaseURL track
      else tracks_loop rest)"

definition selectCaptionURL :: "CaptionTrack list \<Rightarrow> string" where
  "selectCaptionURL captionTracks =
     (let captionURL = tracks_loop captionTracks
      in if captionURL = [] then BaseURL (captionTracks ! 0) else captionURL)"

text \<open>
  The second request is \<^verbatim>\<open>c.httpClient.Get(ttmlURL)\<close>: it carries no context, so the model
  sends it whatever \<open>ctx\<close> reports once the first request is done.
\<close>

definition GetTranscript ::
  "golib \<Rightarrow> network \<Rightarrow> context \<Rightarrow> string \<Rightarrow> event list \<times> (fetch_error + TranscriptResponse)" where
  "GetTranscript lib net ctx videoID =
     (case getPlayerResponse net ctx videoID of
        (events, Inl err) \<Rightarrow> (events, Inl (FailedToGetPlayerResponse err))
      | (events, Inr playerResp) \<Rightarrow>
          (let title = VideoDetails_Title playerResp;
               captionTracks = extractCaptionTracks playerResp
           in if length captionTracks = 0 then (events, Inl NoCaptionTracksAvailable)
              else
                (let ttmlURL = selectCaptionURL captionTracks @ ''&fmt=ttml'' in
                 case caption_endpoint net ttmlURL of
                   None \<Rightarrow> (events @ [GetCaption ttmlURL], Inl FailedToFetchTranscript)
                 | Some (statusCode, body) \<Rightarrow>
                     if statusCode \<noteq> 200
                     then (events @ [GetCaption ttmlURL], Inl (UnexpectedStatusCode statusCode))
                     else
                       (case body of
                          None \<Rightarrow> (events @ [GetCaption ttmlURL], Inl FailedToReadTTML)
                        | Some bodyBytes \<Rightarrow>
                            (case parseTTMLTranscript lib bodyBytes of
                               Inl err \<Rightarrow>
                                 (events @ [GetCaption ttmlURL], Inl (FailedToParseTTML err))
                             | Inr segments \<Rightarrow>
                                 (events @ [GetCaption ttmlURL],
                                  Inr \<lparr>Title = title, Raw = Some \<lparr>Segments = segments\<rparr>,
                                       Formatted = []\<rparr>))))))"

text \<open>The track the specification selects: the first English one, else the first.\<close>

definition is_english :: "CaptionTrack \<Rightarrow> bool" where
  "is_english track = (HasPrefix (VssID track) ''.en'' \<or> LanguageCode track = ''en'')"

definition spec_selectTrack :: "CaptionTrack list \<Rightarrow> CaptionTrack option" where
  "spec_selectTrack tracks =
     (case find is_english tracks of
        Some track \<Rightarrow> Some track
      | None \<Rightarrow> (case tracks of [] \<Rightarrow> None | first # rest \<Rightarrow> Some first))"

section \<open>The orchestration: \<^verbatim>\<open>Transcript.GetTranscripts\<close>\<close>

text \<open>
  The service reaches its cache through the \<^verbatim>\<open>Repository\<close> interface, so the model takes
  the two methods it calls as parameters over a repository state \<open>'r\<close>. The boolean is
  whether the context passed along is cancelled at the call. A successful \<^verbatim>\<open>Get\<close> returns
  a response, never nil.
\<close>

datatype repo_error =
    ErrTranscriptNotFound
  | ErrInvalidTranscript
  | ErrEmptyVideoID
  | ErrContext

record 'r repository =
  repo_Get :: "bool \<Rightarrow> 'r \<Rightarrow> string \<Rightarrow> repo_error + TranscriptResponse"
  repo_Save :: "bool \<Rightarrow> 'r \<Rightarrow> string \<Rightarrow> TranscriptResponse \<Rightarrow> repo_error option \<times> 'r"

record TranscriptRequest =
  VideoURL :: string
  VideoID :: string
  IntervalSeconds :: real

datatype service_error =
    ErrNoTranscript
  | ErrFailedToGet fetch_error
  | ErrFailedToFormat
  | ErrInvalidURL

text \<open>
  The tail of \<^verbatim>\<open>GetTranscripts\<close>, shared by the cache hit and the fresh fetch: build the
  response and format it. The service's own \<^verbatim>\<open>TranscriptResponse\<close> has the fields of the
  client's and is modelled by the same record.
\<close>

definition create_response :: "TranscriptResponse \<Rightarrow> real \<Rightarrow> TranscriptResponse" where
  "create_response youtubeResp interval =
     \<lparr>Title = Title youtubeResp, Raw = Raw youtubeResp,
      Formatted = FormatTranscript (Raw youtubeResp) interval\<rparr>"

definition no_segments :: "TranscriptResponse \<Rightarrow> bool" where
  "no_segments youtubeResp =
     (case Raw youtubeResp of None \<Rightarrow> True | Some t \<Rightarrow> length (Segments t) = 0)"

definition GetTranscripts ::
  "golib \<Rightarrow> network \<Rightarrow> 'r repository \<Rightarrow> context \<Rightarrow> 'r \<Rightarrow> TranscriptRequest \<Rightarrow>
   event list \<times> 'r \<times> (service_error + TranscriptResponse)" where
  "GetTranscripts lib net repo ctx st req =
     (let interval = (if IntervalSeconds req \<le> 0 then 10 else IntervalSeconds req) in
      if VideoURL req = [] \<or> \<not> IsValidUrl lib (VideoURL req) then ([], st, Inl ErrInvalidURL)
      else
        (let videoID = (if VideoID req = [] then ExtractVideoId (VideoURL req) else VideoID req) in
         if videoID = [] then ([], st, Inl ErrInvalidURL)
         else
           (case repo_Get repo (ctx 0) st videoID of
              Inr youtubeResp \<Rightarrow> ([CacheGet videoID], st, Inr (create_response youtubeResp interval))
            | Inl err \<Rightarrow>
                (case GetTranscript lib net (\<lambda>n. ctx (Suc n)) videoID of
                   (events, Inl err) \<Rightarrow> (CacheGet videoID # events, st, Inl (ErrFailedToGet err))
                 | (events, Inr youtubeResp) \<Rightarrow>
                     if no_segments youtubeResp
                     then (CacheGet videoID # events, st, Inl ErrNoTranscript)
                     else
                       (case repo_Save repo (ctx (Suc (length events))) st videoID youtubeResp of
                          (saveErr, st') \<Rightarrow>
                            (CacheGet videoID # events @ [CacheSave videoID], st',
                             Inr (create_response youtubeResp interval)))))))"

section \<open>The HTTP endpoint: \<^verbatim>\<open>Router.handleGetTranscripts\<close>\<close>

record Request =
  Method :: string
  query_videoUrl :: string
  query_interval :: string

datatype response_body =
    ErrorResponse string string
  | TranscriptBody TranscriptResponse

record Response =
  statusCode :: nat
  body :: response_body

definition StatusText :: "nat \<Rightarrow> string" where
  "StatusText code =
     (if code = 400 then ''Bad Request''
      else if code = 404 then ''Not Found''
      else if code = 405 then ''Method Not Allowed''
      else if code = 500 then ''Internal Server Error''
      else [])"

definition writeJSONError :: "string \<Rightarrow> nat \<Rightarrow> Response" where
  "writeJSONError errMsg code = \<lparr>statusCode = code, body = ErrorResponse (StatusText code) errMsg\<rparr>"

text \<open>Encoding the response as JSON is taken to succeed.\<close>

definition handleGetTranscripts ::
  "golib \<Rightarrow> network \<Rightarrow> 'r repository \<Rightarrow> context \<Rightarrow> 'r \<Rightarrow> Request \<Rightarrow> event list \<times> 'r \<times> Response" where
  "handleGetTranscripts lib net repo ctx st req =
     (if Method req \<noteq> ''GET'' then ([], st, writeJSONError ''Method not allowed'' 405)
      else if query_videoUrl req = [] then ([], st, writeJSONError ''Missing videoUrl parameter'' 400)
      else
        (let interval = (case ParseFloat lib (query_interval req) of None \<Rightarrow> 0 | Some v \<Rightarrow> v);
             svcReq = \<lparr>VideoURL = query_videoUrl req, VideoID = [], IntervalSeconds = interval\<rparr>
         in case GetTranscripts lib net repo ctx st svcReq of
              (events, st', Inl err) \<Rightarrow>
                if err = ErrInvalidURL
                then (events, st', writeJSONError ''Invalid YouTube video URL'' 400)
                else (events, st', writeJSONError ''Internal server error'' 500)
            | (events, st', Inr resp) \<Rightarrow>
                if Raw resp = None \<and> Formatted resp = []
                then (events, st', writeJSONError ''No transcript available'' 404)
                else (events, st', \<lparr>statusCode = 200, body = TranscriptBody resp\<rparr>)))"

section \<open>The cache: \<^verbatim>\<open>MemoryRepository\<close>\<close>

text \<open>
  The repository stores pointers, and \<^verbatim>\<open>Save\<close> and \<^verbatim>\<open>Get\<close> copy the struct a pointer
  refers to (\<^verbatim>\<open>transcriptCopy := *transcript\<close>). What such a copy shares with its original
  depends on the memory layout, so the objects live in an explicit store: the
  \<^verbatim>\<open>TranscriptResponse\<close> structs, the \<^verbatim>\<open>Transcript\<close> structs their \<^verbatim>\<open>Raw\<close> pointers refer to, and
  the backing arrays of the slices. A slice is nil or a backing array with a length; the
  code modelled here never re-slices or appends, so offset and capacity are left out.
\<close>

type_synonym addr = nat

datatype slice = NilSlice | Slice addr nat

record TranscriptResponse_cell =
  cell_Title :: string
  cell_Raw :: "addr option"
  cell_Formatted :: slice

record Transcript_cell =
  cell_Segments :: slice

record heap =
  responses :: "addr \<Rightarrow> TranscriptResponse_cell"
  transcripts :: "addr \<Rightarrow> Transcript_cell"
  segment_arrays :: "addr \<Rightarrow> TranscriptSegment list"
  string_arrays :: "addr \<Rightarrow> string list"
  next_response :: addr

record MemoryRepository =
  cache :: "string \<Rightarrow> addr option option"

definition NewMemoryRepository :: MemoryRepository where
  "NewMemoryRepository = \<lparr>cache = (\<lambda>videoID. None)\<rparr>"

text \<open>Allocating the copy of the struct at \<open>p\<close>: a new cell with the same three fields.\<close>

definition copy_response :: "heap \<Rightarrow> addr \<Rightarrow> addr \<times> heap" where
  "copy_response h p =
     (let a = next_response h
      in (a, h\<lparr>responses := (responses h)(a := responses h p), next_response := Suc a\<rparr>))"

definition MemoryRepository_Save ::
  "MemoryRepository \<Rightarrow> heap \<Rightarrow> bool \<Rightarrow> string \<Rightarrow> addr option \<Rightarrow>
   repo_error option \<times> MemoryRepository \<times> heap" where
  "MemoryRepository_Save r h ctx_done videoID transcript =
     (if videoID = [] then (Some ErrEmptyVideoID, r, h)
      else
        (case transcript of
           None \<Rightarrow> (Some ErrInvalidTranscript, r, h)
         | Some p \<Rightarrow>
             if ctx_done then (Some ErrContext, r, h)
             else
               (case copy_response h p of
                  (transcriptCopy, h') \<Rightarrow>
                    (None, r\<lparr>cache := (cache r)(videoID := Some (Some transcriptCopy))\<rparr>, h'))))"

definition MemoryRepository_Get ::
  "MemoryRepository \<Rightarrow> heap \<Rightarrow> bool \<Rightarrow> string \<Rightarrow> (repo_error + addr) \<times> heap" where
  "MemoryRepository_Get r h ctx_done videoID =
     (if videoID = [] then (Inl ErrEmptyVideoID, h)
      else if ctx_done then (Inl ErrContext, h)
      else
        (case cache r videoID of
           None \<Rightarrow> (Inl ErrTranscriptNotFound, h)
         | Some None \<Rightarrow> (Inl ErrInvalidTranscript, h)
         | Some (Some transcript) \<Rightarrow>
             (case copy_response h transcript of
                (transcriptCopy, h') \<Rightarrow> (Inr transcriptCopy, h'))))"

text \<open>The value a pointer to a response denotes: everything reachable from it.\<close>

definition read_slice :: "(addr \<Rightarrow> 'a list) \<Rightarrow> slice \<Rightarrow> 'a list" where
  "read_slice arrays s = (case s of NilSlice \<Rightarrow> [] | Slice a n \<Rightarrow> take n (arrays a))"

definition read_response :: "heap \<Rightarrow> addr \<Rightarrow> TranscriptResponse" where
  "read_response h p =
     \<lparr>Title = cell_Title (responses h p),
      Raw = (case cell_Raw (responses h p) of
               None \<Rightarrow> None
             | Some t \<Rightarrow> Some \<lparr>Segments = read_slice (segment_arrays h) (cell_Segments (transcripts h t))\<rparr>),
      Formatted = read_slice (string_arrays h) (cell_Formatted (responses h p))\<rparr>"

text \<open>
  Two assignments a caller can make through its own pointer \<open>p\<close>:
  \<^verbatim>\<open>p.Title = title\<close> and \<^verbatim>\<open>p.Raw.Segments[i].Text = text\<close> (which panics, leaving the
  store as it is, when \<^verbatim>\<open>Raw\<close> is nil or \<open>i\<close> is out of range).
\<close>

definition assign_Title :: "heap \<Rightarrow> addr \<Rightarrow> string \<Rightarrow> heap" where
  "assign_Title h p title = h\<lparr>responses := (responses h)(p := (responses h p)\<lparr>cell_Title := title\<rparr>)\<rparr>"

definition assign_segment_Text :: "heap \<Rightarrow> addr \<Rightarrow> nat \<Rightarrow> string \<Rightarrow> heap" where
  "assign_segment_Text h p i text =
     (case cell_Raw (responses h p) of
        None \<Rightarrow> h
      | Some t \<Rightarrow>
          (case cell_Segments (transcripts h t) of
             NilSlice \<Rightarrow> h
           | Slice a n \<Rightarrow>
               if i < n
               then h\<lparr>segment_arrays :=
                        (segment_arrays h)(a := (segment_arrays h a)[i := (segment_arrays h a ! i)\<lparr>Text := text\<rparr>])\<rparr>
               else h))"

text \<open>
  A caller that saves the response at \<open>t\<close> in a new repository, then assigns through its
  own pointer, then gets the entry back: the value of \<open>t\<close> at the moment of the save and
  the value that \<^verbatim>\<open>Get\<close> returns.
\<close>

definition save_assign_get ::
  "heap \<Rightarrow> addr \<Rightarrow> string \<Rightarrow> (heap \<Rightarrow> heap) \<Rightarrow> (TranscriptResponse \<times> TranscriptResponse) option" where
  "save_assign_get h t videoID assign =
     (case MemoryRepository_Save NewMemoryRepository h False videoID (Some t) of
        (Some err, r, h1) \<Rightarrow> None
      | (None, r, h1) \<Rightarrow>
          (case MemoryRepository_Get r (assign h1) False videoID of
             (Inl err, h2) \<Rightarrow> None
           | (Inr p, h2) \<Rightarrow> Some (read_response h1 t, read_response h2 p)))"

section \<open>Concrete instances\<close>

text \<open>
  A small library on which the definitions can be run: numbers are unsigned digit strings,
  only blanks are trimmed, two documents decode, and the host of a URL is what stands
  between \<^verbatim>\<open>https://\<close> and the next slash.
\<close>

definition digit_value :: "char \<Rightarrow> nat option" where
  "digit_value c = map_of (zip ''0123456789'' [0, 1, 2, 3, 4, 5, 6, 7, 8, 9]) c"

fun digits_value :: "string \<Rightarrow> nat \<Rightarrow> nat option" where
  "digits_value [] acc = Some acc"
| "digits_value (c # cs) acc =
     (case digit_value c of None \<Rightarrow> None | Some d \<Rightarrow> digits_value cs (acc * 10 + d))"

definition sample_ParseFloat :: "string \<Rightarrow> real option" where
  "sample_ParseFloat s = (if s = [] then None else map_option real (digits_value s 0))"

definition sample_TrimSpace :: "string \<Rightarrow> string" where
  "sample_TrimSpace s =
     rev (dropWhile (\<lambda>c. c = CHR '' '') (rev (dropWhile (\<lambda>c. c = CHR '' '') s)))"

definition sample_paragraphs :: "Paragraph list" where
  "sample_paragraphs =
     [\<lparr>Begin = ''0s'', End = ''2s'', PText = '' hello ''\<rparr>,
      \<lparr>Begin = ''soon'', End = ''4s'', PText = ''lost''\<rparr>,
      \<lparr>Begin = ''0:00:04'', End = ''0:00:09'', PText = ''world''\<rparr>]"

definition sample_xml_Decode :: "string \<Rightarrow> Paragraph list option" where
  "sample_xml_Decode doc =
     (if doc = ''<tt>three paragraphs</tt>'' then Some sample_paragraphs
      else if doc = ''<tt></tt>'' then Some []
      else None)"

definition sample_url_Parse :: "string \<Rightarrow> URL option" where
  "sample_url_Parse s =
     (if HasPrefix s ''https://'' then Some \<lparr>Host = takeWhile (\<lambda>c. c \<noteq> CHR ''/'') (drop 8 s)\<rparr>
      else Some \<lparr>Host = []\<rparr>)"

definition sample_lib :: golib where
  "sample_lib = \<lparr>ParseFloat = sample_ParseFloat, TrimSpace = sample_TrimSpace,
                  xml_Decode = sample_xml_Decode, url_Parse = sample_url_Parse\<rparr>"

text \<open>
  A provider that knows one video with a Spanish and an English track and one video
  whose only track has no usable paragraph.
\<close>

definition sample_network :: network where
  "sample_network =
     \<lparr>player_endpoint = (\<lambda>videoID.
        if videoID = ''dQw4w9WgXcQ''
        then Some (200, Some \<lparr>CaptionTracks =
               [\<lparr>BaseURL = ''https://c/es'', VssID = ''.es'', LanguageCode = ''es''\<rparr>,
                \<lparr>BaseURL = ''https://c/en'', VssID = ''.en'', LanguageCode = ''en''\<rparr>],
               VideoDetails_Title = ''A title''\<rparr>)
        else if videoID = ''silent_clip''
        then Some (200, Some \<lparr>CaptionTracks =
               [\<lparr>BaseURL = ''https://c/none'', VssID = ''.en'', LanguageCode = ''en''\<rparr>],
               VideoDetails_Title = ''Silence''\<rparr>)
        else None),
      caption_endpoint = (\<lambda>url.
        if url = ''https://c/en&fmt=ttml'' then Some (200, Some ''<tt>three paragraphs</tt>'')
        else if url = ''https://c/none&fmt=ttml'' then Some (200, Some ''<tt></tt>'')
        else None)\<rparr>"

text \<open>A repository over a finite map of values, with the checks of \<^verbatim>\<open>MemoryRepository\<close>.\<close>

definition map_repository :: "(string \<Rightarrow> TranscriptResponse option) repository" where
  "map_repository =
     \<lparr>repo_Get = (\<lambda>ctx_done m videoID.
        if videoID = [] then Inl ErrEmptyVideoID
        else if ctx_done then Inl ErrContext
        else (case m videoID of None \<Rightarrow> Inl ErrTranscriptNotFound | Some r \<Rightarrow> Inr r)),
      repo_Save = (\<lambda>ctx_done m videoID r.
        if videoID = [] then (Some ErrEmptyVideoID, m)
        else if ctx_done then (Some ErrContext, m)
        else (None, m(videoID := Some r)))\<rparr>"

text \<open>
  A store with one response at address 0 whose \<^verbatim>\<open>Raw\<close> points to a transcript of one
  segment.
\<close>

definition sample_heap :: heap where
  "sample_heap =
     \<lparr>responses = (\<lambda>a. \<lparr>cell_Title = ''A title'', cell_Raw = Some 0, cell_Formatted = NilSlice\<rparr>),
      transcripts = (\<lambda>a. \<lparr>cell_Segments = Slice 0 1\<rparr>),
      segment_arrays = (\<lambda>a. [\<lparr>Text = ''hello'', StartTime = 0, Duration = 2\<rparr>]),
      string_arrays = (\<lambda>a. []),
      next_response = 1\<rparr>"

section \<open>Properties of the timestamp formatter\<close>

lemma decimal_lt10: "n < 10 \<Longrightarrow> decimal n = [digit_char n]"
  by (subst decimal.simps) simp

lemma decimal_lt100:
  "10 \<le> n \<Longrightarrow> n < 100 \<Longrightarrow> decimal n = [digit_char (n div 10), digit_char (n mod 10)]"
  by (subst decimal.simps) (simp add: decimal_lt10)

lemma digit_char_0: "digit_char 0 = CHR ''0''"
  by (simp add: digit_char_def)

lemma Sprintf_02d_two_digits: "0 \<le> n \<Longrightarrow> n < 100 \<Longrightarrow> Sprintf_02d n = two_digits (nat n)"
proof (cases "nat n < 10")
  case True
  assume "0 \<le> n" "n < 100"
  with True show ?thesis
    by (simp add: Sprintf_02d_def two_digits_def pad0_def decimal_lt10 digit_char_0)
next
  case False
  assume "0 \<le> n" "n < 100"
  with False show ?thesis
    by (simp add: Sprintf_02d_def two_digits_def pad0_def decimal_lt100)
qed

lemma go_int_nonneg: "0 \<le> x \<Longrightarrow> go_int x = \<lfloor>x\<rfloor>"
  by (simp add: go_int_def)

text \<open>The three fields of a start time from 0 up to 100 hours are in range.\<close>

lemma time_fields:
  fixes s :: real
  assumes "0 \<le> s" "s < 360000"
  defines "H \<equiv> \<lfloor>s / 3600\<rfloor>"
  defines "M \<equiv> \<lfloor>(s - of_int (H * 3600)) / 60\<rfloor>"
  defines "S \<equiv> \<lfloor>s - of_int (H * 3600 + M * 60)\<rfloor>"
  shows "0 \<le> H" "H < 100" "0 \<le> M" "M < 60" "0 \<le> S" "S < 60"
    "0 \<le> s - of_int (H * 3600)" "0 \<le> s - of_int (H * 3600 + M * 60)"
    "of_int (H * 3600 + M * 60 + S) \<le> s" "s < of_int (H * 3600 + M * 60 + S) + 1"
    "0 < H \<longleftrightarrow> 3600 \<le> s"
proof -
  have h1: "of_int H \<le> s / 3600" and h2: "s / 3600 < of_int H + 1"
    unfolding H_def by linarith+
  from h1 h2 have h3: "of_int H * 3600 \<le> s" and h4: "s < of_int H * 3600 + 3600"
    by (simp_all add: field_simps)
  show H0: "0 \<le> H" unfolding H_def using assms(1) by simp
  have "real_of_int H < 100" using h3 assms(2) by linarith
  then show "H < 100" by simp
  show r1: "0 \<le> s - of_int (H * 3600)" using h3 by simp
  have m1: "of_int M \<le> (s - of_int (H * 3600)) / 60"
    and m2: "(s - of_int (H * 3600)) / 60 < of_int M + 1"
    unfolding M_def by linarith+
  from m1 m2 have m3: "of_int M * 60 \<le> s - of_int H * 3600"
    and m4: "s - of_int H * 3600 < of_int M * 60 + 60"
    by (simp_all add: field_simps)
  show "0 \<le> M" unfolding M_def using r1 by simp
  have "real_of_int M < 60" using m3 h4 by linarith
  then show "M < 60" by simp
  show r2: "0 \<le> s - of_int (H * 3600 + M * 60)" using m3 by simp
  have s1: "of_int S \<le> s - of_int (H * 3600 + M * 60)"
    and s2: "s - of_int (H * 3600 + M * 60) < of_int S + 1"
    unfolding S_def by linarith+
  show "0 \<le> S" unfolding S_def using r2 by simp
  have "real_of_int S \<le> s - of_int H * 3600 - of_int M * 60" using s1 by simp
  with m4 have "real_of_int S < 60" by linarith
  then show "S < 60" by simp
  show "of_int (H * 3600 + M * 60 + S) \<le> s" using s1 by simp
  show "s < of_int (H * 3600 + M * 60 + S) + 1" using s2 by simp
  show "0 < H \<longleftrightarrow> 3600 \<le> s"
  proof
    assume "0 < H"
    then have "1 \<le> H" by simp
    then have "(1::real) \<le> of_int H" by linarith
    with h3 show "3600 \<le> s" by linarith
  next
    assume "3600 \<le> s"
    with h4 have "0 < of_int H * (3600::real)" by linarith
    then show "0 < H" by simp
  qed
qed

lemma formatTimeText_fields:
  assumes "0 \<le> s" "s < 360000"
  shows "\<exists>h m sec. h < 100 \<and> m < 60 \<and> sec < 60 \<and>
           real (h * 3600 + m * 60 + sec) \<le> s \<and> s < real (h * 3600 + m * 60 + sec) + 1 \<and>
           (0 < h \<longleftrightarrow> 3600 \<le> s) \<and>
           formatTimeText s text =
             (if 0 < h
              then ''('' @ two_digits h @ '':'' @ two_digits m @ '':'' @ two_digits sec @ '') '' @ text
              else ''('' @ two_digits m @ '':'' @ two_digits sec @ '') '' @ text)"
proof -
  define H where "H = \<lfloor>s / 3600\<rfloor>"
  define M where "M = \<lfloor>(s - of_int (H * 3600)) / 60\<rfloor>"
  define S where "S = \<lfloor>s - of_int (H * 3600 + M * 60)\<rfloor>"
  note f = time_fields [OF assms, folded H_def, folded M_def, folded S_def]
  have gH: "go_int (s / 3600) = H"
    using assms(1) by (simp add: go_int_nonneg H_def)
  have gM: "go_int ((s - of_int (H * 3600)) / 60) = M"
    using f(7) by (simp add: go_int_nonneg M_def)
  have gS: "go_int (s - of_int (H * 3600 + M * 60)) = S"
    using f(8) by (simp add: go_int_nonneg S_def)
  have fmt: "formatTimeText s text =
      (if 0 < H
       then ''('' @ Sprintf_02d H @ '':'' @ Sprintf_02d M @ '':'' @ Sprintf_02d S @ '') '' @ text
       else ''('' @ Sprintf_02d M @ '':'' @ Sprintf_02d S @ '') '' @ text)"
    unfolding formatTimeText_def gH Let_def gM gS by simp
  have two: "Sprintf_02d H = two_digits (nat H)" "Sprintf_02d M = two_digits (nat M)"
    "Sprintf_02d S = two_digits (nat S)"
    using f(1-6) by (simp_all add: Sprintf_02d_two_digits)
  have sum: "real (nat H * 3600 + nat M * 60 + nat S) = of_int (H * 3600 + M * 60 + S)"
    using f(1,3,5) by simp
  have "nat H < 100" "nat M < 60" "nat S < 60" using f(1-6) by simp_all
  moreover have "real (nat H * 3600 + nat M * 60 + nat S) \<le> s"
    unfolding sum using f(9) .
  moreover have "s < real (nat H * 3600 + nat M * 60 + nat S) + 1"
    unfolding sum using f(10) .
  moreover have "0 < nat H \<longleftrightarrow> 3600 \<le> s" using f(11) by simp
  moreover have "formatTimeText s text =
             (if 0 < nat H
              then ''('' @ two_digits (nat H) @ '':'' @ two_digits (nat M) @ '':'' @
                   two_digits (nat S) @ '') '' @ text
              else ''('' @ two_digits (nat M) @ '':'' @ two_digits (nat S) @ '') '' @ text)"
    unfolding fmt two by simp
  ultimately show ?thesis
    by (intro exI [of _ "nat H"] exI [of _ "nat M"] exI [of _ "nat S"] conjI)
qed

lemmas formatTimeText_eval =
  formatTimeText_def go_int_def Sprintf_02d_def pad0_def decimal.simps digit_char_def Let_def

lemma two_digits_length: "length (two_digits n) = 2"
  by (simp add: two_digits_def)

lemma hms_shape_length: "hms_shape str \<Longrightarrow> length str = 11"
  by (auto simp: hms_shape_def two_digits_length)

lemma ms_shape_length: "ms_shape str \<Longrightarrow> length str = 8"
  by (auto simp: ms_shape_def two_digits_length)

text \<open>
  Claim C7, as stated: for every seconds value the formatter produces \<^verbatim>\<open>(HH:MM:SS) \<close> with
  two-digit fields when the hour component is greater than zero and \<^verbatim>\<open>(MM:SS) \<close> when less
  than an hour has elapsed. This fails from 100 hours on, where the hour field takes three
  digits, and for a negative start time, where a field carries a sign: \<^verbatim>\<open>%02d\<close> sets a
  minimum width, not a fixed one.
\<close>

theorem formatTimeText_fields_counterexample:
  "0 < go_int (360000 / 3600) \<and> \<not> hms_shape (formatTimeText 360000 []) \<and>
   formatTimeText 360000 [] = ''(100:00:00) '' \<and>
   (- 45 :: real) < 3600 \<and> \<not> ms_shape (formatTimeText (- 45) []) \<and>
   formatTimeText (- 45) [] = ''(00:-45) ''"
proof -
  have a: "formatTimeText 360000 [] = ''(100:00:00) ''"
    by (simp add: formatTimeText_eval)
  have b: "formatTimeText (- 45) [] = ''(00:-45) ''"
    by (simp add: formatTimeText_eval)
  have "\<not> hms_shape (formatTimeText 360000 [])"
    using hms_shape_length [of "formatTimeText 360000 []"] unfolding a by auto
  moreover have "\<not> ms_shape (formatTimeText (- 45) [])"
    using ms_shape_length [of "formatTimeText (- 45) []"] unfolding b by auto
  moreover have "0 < go_int (360000 / 3600)"
    by (simp add: go_int_def)
  ultimately show ?thesis using a b by simp
qed

text \<open>
  Claim C7, amended: for every seconds value from 0 up to (not including) 360000, with
  \<open>h\<close>, \<open>m\<close>, \<open>sec\<close> the hours, minutes and seconds of its whole part, the formatter
  produces \<^verbatim>\<open>(HH:MM:SS) \<close> with two-digit fields when the hour component is greater than
  zero, which is when at least 3600 seconds have elapsed, and \<^verbatim>\<open>(MM:SS) \<close> with no hour
  field otherwise, followed by the text. Formatting 45 seconds gives \<^verbatim>\<open>(00:45) \<close> and
  formatting 3725 seconds gives \<^verbatim>\<open>(01:02:05) \<close>.
\<close>

theorem formatTimeText_two_digit_fields:
  assumes "0 \<le> s" and "s < 360000"
  shows "(\<exists>h m sec. h < 100 \<and> m < 60 \<and> sec < 60 \<and>
           real (h * 3600 + m * 60 + sec) \<le> s \<and> s < real (h * 3600 + m * 60 + sec) + 1 \<and>
           (0 < h \<longleftrightarrow> 3600 \<le> s) \<and>
           formatTimeText s text =
             (if 0 < h
              then ''('' @ two_digits h @ '':'' @ two_digits m @ '':'' @ two_digits sec @ '') '' @ text
              else ''('' @ two_digits m @ '':'' @ two_digits sec @ '') '' @ text)) \<and>
         formatTimeText 45 text = ''(00:45) '' @ text \<and>
         formatTimeText 3725 text = ''(01:02:05) '' @ text"
proof (intro conjI)
  show "formatTimeText 45 text = ''(00:45) '' @ text"
    by (simp add: formatTimeText_eval)
  show "formatTimeText 3725 text = ''(01:02:05) '' @ text"
    by (simp add: formatTimeText_eval)
qed (rule formatTimeText_fields [OF assms])

theorem formatTimeText_two_digit_fields_witness:
  "(0 :: real) \<le> 3725 \<and> (3725 :: real) < 360000 \<and>
   (\<exists>h m sec. h < 100 \<and> m < 60 \<and> sec < 60 \<and>
      real (h * 3600 + m * 60 + sec) \<le> 3725 \<and> 3725 < real (h * 3600 + m * 60 + sec) + 1 \<and>
      (0 < h \<longleftrightarrow> (3600 :: real) \<le> 3725) \<and>
      formatTimeText 3725 ''hi'' =
        (if 0 < h
         then ''('' @ two_digits h @ '':'' @ two_digits m @ '':'' @ two_digits sec @ '') '' @ ''hi''
         else ''('' @ two_digits m @ '':'' @ two_digits sec @ '') '' @ ''hi''))"
proof -
  have a: "(0 :: real) \<le> 3725" and b: "(3725 :: real) < 360000" by simp_all
  from formatTimeText_two_digit_fields [OF a b, of "''hi''"] a b show ?thesis
    by (intro conjI) (erule conjE, assumption)+
qed

section \<open>The grouper refines the reference algorithm\<close>








section \<open>Properties of the time codec\<close>

lemma Split_not_Nil: "Split x c \<noteq> []"
  by (induction x) (auto split: list.splits)

lemma Split_no_separator: "c \<notin> set a \<Longrightarrow> Split a c = [a]"
  by (induction a) auto

lemma Split_at_separator: "c \<notin> set a \<Longrightarrow> Split (a @ c # rest) c = a # Split rest c"
  by (induction a) auto

lemma Split_first_field:
  "Split x c = a # fs \<Longrightarrow>
   c \<notin> set a \<and> (if fs = [] then x = a else \<exists>rest. x = a @ c # rest \<and> Split rest c = fs)"
proof (induction x arbitrary: a fs)
  case Nil
  then show ?case by simp
next
  case (Cons y ys)
  show ?case
  proof (cases "y = c")
    case True
    with Cons.prems have "a = []" "fs = Split ys c" by simp_all
    with True show ?thesis by (simp add: Split_not_Nil)
  next
    case False
    obtain f fs' where sp: "Split ys c = f # fs'"
      using Split_not_Nil [of ys c] by (cases "Split ys c") auto
    with False Cons.prems have a: "a = y # f" and fs: "fs = fs'" by simp_all
    from Cons.IH [OF sp] have ih: "c \<notin> set f"
      "if fs' = [] then ys = f else \<exists>rest. ys = f @ c # rest \<and> Split rest c = fs'"
      by simp_all
    show ?thesis
    proof (cases "fs' = []")
      case True
      with ih a fs False show ?thesis by simp
    next
      case False
      with ih obtain rest where "ys = f @ c # rest" "Split rest c = fs'" by auto
      with ih(1) a fs False \<open>y \<noteq> c\<close> show ?thesis by auto
    qed
  qed
qed

lemma Split_three_fields:
  "Split x CHR '':'' = [h, m, s] \<longleftrightarrow> colon_fields x h m s"
proof
  assume sp: "Split x CHR '':'' = [h, m, s]"
  from Split_first_field [OF sp] obtain r1 where
    h: "CHR '':'' \<notin> set h" and x: "x = h @ CHR '':'' # r1" and r1: "Split r1 CHR '':'' = [m, s]"
    by auto
  from Split_first_field [OF r1] obtain r2 where
    m: "CHR '':'' \<notin> set m" and x1: "r1 = m @ CHR '':'' # r2" and r2: "Split r2 CHR '':'' = [s]"
    by auto
  from Split_first_field [OF r2] have s: "CHR '':'' \<notin> set s" and x2: "r2 = s"
    by simp_all
  from h m s x x1 x2 show "colon_fields x h m s"
    by (simp add: colon_fields_def)
next
  assume "colon_fields x h m s"
  then show "Split x CHR '':'' = [h, m, s]"
    by (simp add: colon_fields_def Split_at_separator Split_no_separator)
qed

lemma HasSuffix_s: "HasSuffix x ''s'' \<longleftrightarrow> (\<exists>r. x = r @ ''s'')"
proof
  assume "HasSuffix x ''s''"
  then have "x = take (length x - 1) x @ ''s''"
    by (simp add: HasSuffix_def) (metis append_take_drop_id)
  then show "\<exists>r. x = r @ ''s''" ..
next
  assume "\<exists>r. x = r @ ''s''"
  then show "HasSuffix x ''s''" by (auto simp: HasSuffix_def)
qed

lemma TrimSuffix_s: "TrimSuffix (r @ ''s'') ''s'' = r"
  by (simp add: TrimSuffix_def HasSuffix_def)

lemma parseTime_suffix:
  "parseTime lib (r @ ''s'') =
     (case ParseFloat lib r of None \<Rightarrow> Inl (NumError r) | Some v \<Rightarrow> Inr v)"
proof -
  have "HasSuffix (r @ ''s'') ''s''" by (auto simp: HasSuffix_s)
  then show ?thesis
    unfolding parseTime_def TrimSuffix_s by simp
qed

lemma list_length_3: "length xs = 3 \<longleftrightarrow> (\<exists>a b c. xs = [a, b, c])"
  by (cases xs; cases "tl xs"; cases "tl (tl xs)"; cases "tl (tl (tl xs))") auto

lemma parseTime_colon:
  assumes "\<not> HasSuffix x ''s''"
  shows "parseTime lib x = Inr v \<longleftrightarrow>
           (\<exists>fh fm fs h m s. colon_fields x fh fm fs \<and> ParseFloat lib fh = Some h \<and>
              ParseFloat lib fm = Some m \<and> ParseFloat lib fs = Some s \<and>
              v = h * 3600 + m * 60 + s)"
proof (cases "length (Split x CHR '':'') = 3")
  case False
  have "\<not> colon_fields x fh fm fs" for fh fm fs
    using False by (auto simp flip: Split_three_fields)
  with False assms show ?thesis
    by (simp add: parseTime_def)
next
  case True
  then obtain a b c where sp: "Split x CHR '':'' = [a, b, c]"
    by (auto simp: list_length_3)
  have cf: "colon_fields x fh fm fs \<longleftrightarrow> fh = a \<and> fm = b \<and> fs = c" for fh fm fs
    using sp by (auto simp flip: Split_three_fields)
  show ?thesis
    using assms sp by (auto simp: parseTime_def Let_def cf split: option.splits)
qed

lemma parseTime_error:
  assumes "\<not> HasSuffix x ''s''"
    and "length (Split x CHR '':'') \<noteq> 3 \<or> (\<exists>f \<in> set (Split x CHR '':''). ParseFloat lib f = None)"
  shows "\<exists>e. parseTime lib x = Inl e"
proof (cases "length (Split x CHR '':'') = 3")
  case False
  with assms(1) show ?thesis by (simp add: parseTime_def)
next
  case True
  then obtain a b c where sp: "Split x CHR '':'' = [a, b, c]"
    by (auto simp: list_length_3)
  with assms(2) have "ParseFloat lib a = None \<or> ParseFloat lib b = None \<or> ParseFloat lib c = None"
    by auto
  with assms(1) sp show ?thesis
    by (auto simp: parseTime_def Let_def split: option.splits)
qed

text \<open>
  Claim C6: an input that ends in the unit marker \<^verbatim>\<open>s\<close> is parsed as the number before
  the marker, with an error when that is not numeric; any other input succeeds exactly
  when it splits on colons into three numeric fields \<open>h\<close>, \<open>m\<close>, \<open>s\<close>, and then gives
  \<open>h * 3600 + m * 60 + s\<close>; another field count, or a field that is not numeric, is an
  error. Numeric is what \<^verbatim>\<open>strconv.ParseFloat\<close> accepts.
\<close>

theorem parseTime_spec:
  "parseTime lib (r @ ''s'') =
     (case ParseFloat lib r of None \<Rightarrow> Inl (NumError r) | Some v \<Rightarrow> Inr v) \<and>
   ((\<nexists>r. x = r @ ''s'') \<longrightarrow>
      (parseTime lib x = Inr v \<longleftrightarrow>
         (\<exists>fh fm fs h m s. colon_fields x fh fm fs \<and> ParseFloat lib fh = Some h \<and>
            ParseFloat lib fm = Some m \<and> ParseFloat lib fs = Some s \<and>
            v = h * 3600 + m * 60 + s)) \<and>
      (length (Split x CHR '':'') \<noteq> 3 \<or> (\<exists>f \<in> set (Split x CHR '':''). ParseFloat lib f = None)
         \<longrightarrow> (\<exists>e. parseTime lib x = Inl e)))"
  using parseTime_suffix [of lib r] parseTime_colon [of x lib v] parseTime_error [of x lib]
  unfolding HasSuffix_s by blast

lemma sample_ParseFloat_1: "sample_ParseFloat ''1'' = Some 1"
  by (simp add: sample_ParseFloat_def digit_value_def)

lemma sample_ParseFloat_02: "sample_ParseFloat ''02'' = Some 2"
  by (simp add: sample_ParseFloat_def digit_value_def)

lemma sample_ParseFloat_03: "sample_ParseFloat ''03'' = Some 3"
  by (simp add: sample_ParseFloat_def digit_value_def)

theorem parseTime_spec_witness:
  "parseTime sample_lib ''12s'' = Inr 12 \<and>
   (\<nexists>r. ''1:02:03'' = r @ ''s'') \<and>
   parseTime sample_lib ''1:02:03'' = Inr 3723 \<and>
   (\<nexists>r. ''1:02'' = r @ ''s'') \<and>
   length (Split ''1:02'' CHR '':'') \<noteq> 3 \<and>
   (\<exists>e. parseTime sample_lib ''1:02'' = Inl e)"
proof -
  have pf12: "ParseFloat sample_lib ''12'' = Some 12"
    by (simp add: sample_lib_def sample_ParseFloat_def digit_value_def)
  have a: "parseTime sample_lib ''12s'' = Inr 12"
    using parseTime_spec [of sample_lib "''12''"] by (simp add: pf12)
  have b: "\<nexists>r. ''1:02:03'' = r @ ''s''"
    by (simp add: append_eq_Cons_conv)
  have cf: "colon_fields ''1:02:03'' ''1'' ''02'' ''03''"
    by (simp add: colon_fields_def)
  have c: "parseTime sample_lib ''1:02:03'' = Inr 3723"
  proof -
    have "\<exists>fh fm fs h m s. colon_fields ''1:02:03'' fh fm fs \<and>
            ParseFloat sample_lib fh = Some h \<and> ParseFloat sample_lib fm = Some m \<and>
            ParseFloat sample_lib fs = Some s \<and> (3723 :: real) = h * 3600 + m * 60 + s"
      by (intro exI [of _ "''1''"] exI [of _ "''02''"] exI [of _ "''03''"]
            exI [of _ "1 :: real"] exI [of _ "2 :: real"] exI [of _ "3 :: real"])
         (simp add: cf sample_lib_def sample_ParseFloat_1 sample_ParseFloat_02 sample_ParseFloat_03)
    with parseTime_spec [of sample_lib "[]" "''1:02:03''" 3723] b show ?thesis by blast
  qed
  have d: "\<nexists>r. ''1:02'' = r @ ''s''"
    by (simp add: append_eq_Cons_conv)
  have e: "length (Split ''1:02'' CHR '':'') \<noteq> 3" by simp
  have f: "\<exists>e. parseTime sample_lib ''1:02'' = Inl e"
    using parseTime_spec [of sample_lib "[]" "''1:02''"] d e by blast
  show ?thesis by (intro conjI a b c d e f)
qed

section \<open>Properties of the timed-text parser\<close>

lemma paragraphs_loop_map_filter:
  "paragraphs_loop lib ps segments = segments @ List.map_filter (segment_of lib) ps"
  by (induction ps arbitrary: segments)
     (auto simp: segment_of_def Let_def split: sum.splits)

lemma segment_of_Some:
  "segment_of lib p = Some g \<longleftrightarrow>
     (\<exists>b e. parseTime lib (Begin p) = Inr b \<and> parseTime lib (End p) = Inr e \<and>
        TrimSpace lib (PText p) \<noteq> [] \<and>
        g = \<lparr>Text = TrimSpace lib (PText p), StartTime = b, Duration = e - b\<rparr>)"
  by (auto simp: segment_of_def split: sum.splits)

lemma segment_of_bad_begin: "parseTime lib (Begin p) = Inl e \<Longrightarrow> segment_of lib p = None"
  by (simp add: segment_of_def)

lemma map_filter_segment_of_texts:
  "list_all (\<lambda>g. Text g \<noteq> []) (List.map_filter (segment_of lib) ps)"
proof (induction ps)
  case Nil
  show ?case by simp
next
  case (Cons p ps)
  show ?case
  proof (cases "segment_of lib p")
    case None
    with Cons show ?thesis by simp
  next
    case (Some g)
    then have "Text g \<noteq> []" by (auto simp: segment_of_Some)
    with Some Cons show ?thesis by simp
  qed
qed

text \<open>
  Every segment the parser emits has a non-empty text, which is what the data model asks of
  a segment and what the grouper relies on.
\<close>

theorem parseTTMLTranscript_texts:
  "parseTTMLTranscript lib document = Inr segments \<Longrightarrow> list_all (\<lambda>g. Text g \<noteq> []) segments"
  by (auto simp: parseTTMLTranscript_def paragraphs_loop_map_filter map_filter_segment_of_texts
        split: option.splits)

theorem parseTTMLTranscript_texts_witness:
  "parseTTMLTranscript sample_lib ''<tt>three paragraphs</tt>'' =
     Inr [\<lparr>Text = ''hello'', StartTime = 0, Duration = 2\<rparr>,
          \<lparr>Text = ''world'', StartTime = 4, Duration = 5\<rparr>] \<and>
   list_all (\<lambda>g. Text g \<noteq> [])
     [\<lparr>Text = ''hello'', StartTime = 0, Duration = 2\<rparr>,
      \<lparr>Text = ''world'', StartTime = 4, Duration = 5\<rparr>]"
proof -
  have p: "parseTTMLTranscript sample_lib ''<tt>three paragraphs</tt>'' =
     Inr [\<lparr>Text = ''hello'', StartTime = 0, Duration = 2\<rparr>,
          \<lparr>Text = ''world'', StartTime = 4, Duration = 5\<rparr>]"
    by (simp add: parseTTMLTranscript_def parseTime_def HasSuffix_def TrimSuffix_def Let_def
          sample_lib_def sample_xml_Decode_def sample_paragraphs_def sample_ParseFloat_def
          digit_value_def sample_TrimSpace_def)
  from parseTTMLTranscript_texts [OF p] p show ?thesis by (intro conjI)
qed

text \<open>
  Claim C5: for a document that decodes, the parser emits, in document order, exactly the
  segments of the paragraphs whose \<^verbatim>\<open>begin\<close> and \<^verbatim>\<open>end\<close> both parse and whose trimmed text
  is non-empty, each with the trimmed text, the parsed begin as start time and end minus
  begin as duration; the other paragraphs are skipped. Three paragraphs of which one has
  a \<^verbatim>\<open>begin\<close> that does not parse, the other two being usable, give the two segments
  in their original order.
\<close>

theorem parseTTMLTranscript_spec:
  assumes "xml_Decode lib document = Some paragraphs"
  shows "parseTTMLTranscript lib document = Inr (List.map_filter (segment_of lib) paragraphs) \<and>
         (\<forall>para seg. segment_of lib para = Some seg \<longleftrightarrow>
            (\<exists>b e. parseTime lib (Begin para) = Inr b \<and> parseTime lib (End para) = Inr e \<and>
               TrimSpace lib (PText para) \<noteq> [] \<and>
               seg = \<lparr>Text = TrimSpace lib (PText para), StartTime = b, Duration = e - b\<rparr>)) \<and>
         (parseTime lib (Begin bad) = Inl err \<and> segment_of lib p = Some g \<and>
          segment_of lib q = Some k \<and> paragraphs \<in> {[bad, p, q], [p, bad, q], [p, q, bad]}
            \<longrightarrow> parseTTMLTranscript lib document = Inr [g, k])"
proof (intro conjI allI impI)
  show r: "parseTTMLTranscript lib document = Inr (List.map_filter (segment_of lib) paragraphs)"
    using assms by (simp add: parseTTMLTranscript_def paragraphs_loop_map_filter)
  show "segment_of lib para = Some seg \<longleftrightarrow>
            (\<exists>b e. parseTime lib (Begin para) = Inr b \<and> parseTime lib (End para) = Inr e \<and>
               TrimSpace lib (PText para) \<noteq> [] \<and>
               seg = \<lparr>Text = TrimSpace lib (PText para), StartTime = b, Duration = e - b\<rparr>)"
    for para seg
    by (rule segment_of_Some)
  assume "parseTime lib (Begin bad) = Inl err \<and> segment_of lib p = Some g \<and>
          segment_of lib q = Some k \<and> paragraphs \<in> {[bad, p, q], [p, bad, q], [p, q, bad]}"
  then show "parseTTMLTranscript lib document = Inr [g, k]"
    unfolding r by (auto simp: segment_of_bad_begin)
qed

theorem parseTTMLTranscript_spec_witness:
  "xml_Decode sample_lib ''<tt>three paragraphs</tt>'' = Some sample_paragraphs \<and>
   parseTTMLTranscript sample_lib ''<tt>three paragraphs</tt>'' =
     Inr (List.map_filter (segment_of sample_lib) sample_paragraphs) \<and>
   parseTime sample_lib (Begin (sample_paragraphs ! 1)) = Inl (InvalidTimeFormat ''soon'') \<and>
   parseTTMLTranscript sample_lib ''<tt>three paragraphs</tt>'' =
     Inr [\<lparr>Text = ''hello'', StartTime = 0, Duration = 2\<rparr>,
          \<lparr>Text = ''world'', StartTime = 4, Duration = 5\<rparr>]"
proof -
  let ?p = "\<lparr>Begin = ''0s'', End = ''2s'', PText = '' hello ''\<rparr>"
  let ?bad = "\<lparr>Begin = ''soon'', End = ''4s'', PText = ''lost''\<rparr>"
  let ?q = "\<lparr>Begin = ''0:00:04'', End = ''0:00:09'', PText = ''world''\<rparr>"
  have d: "xml_Decode sample_lib ''<tt>three paragraphs</tt>'' = Some sample_paragraphs"
    by (simp add: sample_lib_def sample_xml_Decode_def)
  have pf: "ParseFloat sample_lib = sample_ParseFloat" "TrimSpace sample_lib = sample_TrimSpace"
    by (simp_all add: sample_lib_def)
  have bad: "parseTime sample_lib (Begin ?bad) = Inl (InvalidTimeFormat ''soon'')"
    by (simp add: parseTime_def HasSuffix_def)
  have p: "segment_of sample_lib ?p = Some \<lparr>Text = ''hello'', StartTime = 0, Duration = 2\<rparr>"
    by (simp add: segment_of_def parseTime_def HasSuffix_def TrimSuffix_def pf
          sample_ParseFloat_def digit_value_def sample_TrimSpace_def)
  have q: "segment_of sample_lib ?q = Some \<lparr>Text = ''world'', StartTime = 4, Duration = 5\<rparr>"
    by (simp add: segment_of_def parseTime_def HasSuffix_def pf
          sample_ParseFloat_def digit_value_def sample_TrimSpace_def)
  have m: "sample_paragraphs \<in> {[?bad, ?p, ?q], [?p, ?bad, ?q], [?p, ?q, ?bad]}"
    by (simp add: sample_paragraphs_def)
  note t = parseTTMLTranscript_spec [OF d, where bad = ?bad and p = ?p and q = ?q]
  from t have a: "parseTTMLTranscript sample_lib ''<tt>three paragraphs</tt>'' =
     Inr (List.map_filter (segment_of sample_lib) sample_paragraphs)"
    by (rule conjunct1)
  from t bad p q m have b: "parseTTMLTranscript sample_lib ''<tt>three paragraphs</tt>'' =
     Inr [\<lparr>Text = ''hello'', StartTime = 0, Duration = 2\<rparr>,
          \<lparr>Text = ''world'', StartTime = 4, Duration = 5\<rparr>]"
    by blast
  have bad': "parseTime sample_lib (Begin (sample_paragraphs ! 1)) = Inl (InvalidTimeFormat ''soon'')"
    using bad by (simp add: sample_paragraphs_def)
  show ?thesis by (intro conjI d a bad' b)
qed

section \<open>Properties of the identifier extractor\<close>

lemma HasPrefix_iff: "HasPrefix s m \<longleftrightarrow> (\<exists>r. s = m @ r)"
proof
  assume "HasPrefix s m"
  then have "s = m @ drop (length m) s"
    by (simp add: HasPrefix_def) (metis append_take_drop_id)
  then show "\<exists>r. s = m @ r" ..
next
  assume "\<exists>r. s = m @ r"
  then show "HasPrefix s m" by (auto simp: HasPrefix_def)
qed

lemma token_here_iff:
  "token_here rest \<longleftrightarrow>
     (\<exists>tok post. rest = tok @ post \<and> length tok = 11 \<and> list_all idchar tok \<and>
        (post = [] \<or> (\<exists>c after. post = c # after \<and> c \<in> set terminators)))"
proof
  assume t: "token_here rest"
  have "rest = take 11 rest @ drop 11 rest" by simp
  moreover from t have "length (take 11 rest) = 11" "list_all idchar (take 11 rest)"
    by (simp_all add: token_here_def)
  moreover from t have "drop 11 rest = [] \<or> (\<exists>c after. drop 11 rest = c # after \<and> c \<in> set terminators)"
    by (cases "drop 11 rest") (simp_all add: token_here_def)
  ultimately show "\<exists>tok post. rest = tok @ post \<and> length tok = 11 \<and> list_all idchar tok \<and>
        (post = [] \<or> (\<exists>c after. post = c # after \<and> c \<in> set terminators))"
    by blast
next
  assume "\<exists>tok post. rest = tok @ post \<and> length tok = 11 \<and> list_all idchar tok \<and>
        (post = [] \<or> (\<exists>c after. post = c # after \<and> c \<in> set terminators))"
  then obtain tok post where "rest = tok @ post" "length tok = 11" "list_all idchar tok"
    "post = [] \<or> (\<exists>c after. post = c # after \<and> c \<in> set terminators)"
    by blast
  then show "token_here rest"
    by (auto simp: token_here_def)
qed

text \<open>No two markers can stand at the same place.\<close>

lemma marker_unique:
  "m \<in> set markers \<Longrightarrow> m' \<in> set markers \<Longrightarrow> m @ r = m' @ r' \<Longrightarrow> m = m'"
  by (auto simp: markers_def)

lemma find_Some_holds: "find P xs = Some x \<Longrightarrow> P x \<and> x \<in> set xs"
  by (induction xs) (auto split: if_splits)

lemma match_here_iff: "match_here s = Some tok \<longleftrightarrow> pattern_match s 0 tok"
proof
  assume "match_here s = Some tok"
  then obtain m where f: "find (\<lambda>m. HasPrefix s m \<and> token_here (drop (length m) s)) markers = Some m"
    and tok: "tok = take 11 (drop (length m) s)"
    by (auto simp: match_here_def split: option.splits)
  from find_Some_holds [OF f] have m: "m \<in> set markers" and pre: "HasPrefix s m"
    and th: "token_here (drop (length m) s)"
    by simp_all
  from pre obtain r where s: "s = m @ r" by (auto simp: HasPrefix_iff)
  from th s obtain tok' post where r: "r = tok' @ post" and l: "length tok' = 11"
    and ok: "list_all idchar tok'"
    and post: "post = [] \<or> (\<exists>c after. post = c # after \<and> c \<in> set terminators)"
    by (auto simp: token_here_iff)
  from tok s r l have "tok = tok'" by simp
  with s r l ok post m show "pattern_match s 0 tok"
    unfolding pattern_match_def by (intro exI [of _ "[]"] exI [of _ m] exI [of _ post]) simp
next
  assume "pattern_match s 0 tok"
  then obtain m post where s: "s = m @ tok @ post" and m: "m \<in> set markers"
    and l: "length tok = 11" and ok: "list_all idchar tok"
    and post: "post = [] \<or> (\<exists>c after. post = c # after \<and> c \<in> set terminators)"
    by (auto simp: pattern_match_def)
  have here: "HasPrefix s m \<and> token_here (drop (length m) s)"
    using s l ok post by (auto simp: HasPrefix_iff token_here_iff)
  with m have "find (\<lambda>m. HasPrefix s m \<and> token_here (drop (length m) s)) markers \<noteq> None"
    by (auto simp: find_None_iff)
  then obtain m' where f: "find (\<lambda>m. HasPrefix s m \<and> token_here (drop (length m) s)) markers = Some m'"
    by auto
  from find_Some_holds [OF f] have "m' \<in> set markers" "HasPrefix s m'" by simp_all
  then obtain r' where "s = m' @ r'" by (auto simp: HasPrefix_iff)
  with s m \<open>m' \<in> set markers\<close> have "m' = m" by (metis marker_unique)
  with f s l show "match_here s = Some tok"
    by (simp add: match_here_def)
qed

lemma match_here_None: "match_here s = None \<Longrightarrow> \<not> pattern_match s 0 tok"
  using match_here_iff [of s tok] by simp

lemma match_here_unique: "match_here s = Some t \<Longrightarrow> pattern_match s 0 tok \<Longrightarrow> tok = t"
  using match_here_iff [of s tok] by simp

lemma pattern_match_Nil: "\<not> pattern_match [] i tok"
  by (auto simp: pattern_match_def)

lemma pattern_match_Cons: "pattern_match (c # cs) (Suc i) tok \<longleftrightarrow> pattern_match cs i tok"
proof
  assume "pattern_match (c # cs) (Suc i) tok"
  then obtain pre m post where s: "c # cs = pre @ m @ tok @ post" and i: "length pre = Suc i"
    and rest: "m \<in> set markers" "length tok = 11" "list_all idchar tok"
      "post = [] \<or> (\<exists>c after. post = c # after \<and> c \<in> set terminators)"
    unfolding pattern_match_def by blast
  from i obtain pre' where pre: "pre = c # pre'" "length pre' = i"
    using s by (cases pre) auto
  with s have "cs = pre' @ m @ tok @ post" by simp
  with pre rest show "pattern_match cs i tok"
    unfolding pattern_match_def by blast
next
  assume "pattern_match cs i tok"
  then obtain pre m post where s: "cs = pre @ m @ tok @ post" and i: "length pre = i"
    and rest: "m \<in> set markers" "length tok = 11" "list_all idchar tok"
      "post = [] \<or> (\<exists>c after. post = c # after \<and> c \<in> set terminators)"
    unfolding pattern_match_def by blast
  from s i have "c # cs = (c # pre) @ m @ tok @ post" "length (c # pre) = Suc i" by simp_all
  with rest show "pattern_match (c # cs) (Suc i) tok"
    unfolding pattern_match_def by blast
qed

lemma FindStringSubmatch_None: "FindStringSubmatch s = None \<Longrightarrow> \<not> pattern_match s i tok"
proof (induction s arbitrary: i)
  case Nil
  show ?case by (rule pattern_match_Nil)
next
  case (Cons c cs)
  from Cons.prems have here: "match_here (c # cs) = None" and rest: "FindStringSubmatch cs = None"
    by (simp_all split: option.splits)
  show ?case
  proof (cases i)
    case 0
    with match_here_None [OF here] show ?thesis by simp
  next
    case (Suc j)
    with Cons.IH [OF rest] show ?thesis by (simp add: pattern_match_Cons)
  qed
qed

lemma FindStringSubmatch_Some:
  "FindStringSubmatch s = Some tok \<Longrightarrow>
   \<exists>i. pattern_match s i tok \<and> (\<forall>j tok'. pattern_match s j tok' \<longrightarrow> i \<le> j \<and> (j = i \<longrightarrow> tok' = tok))"
proof (induction s)
  case Nil
  then have "pattern_match [] 0 tok" by (simp add: match_here_iff)
  then show ?case by (simp add: pattern_match_Nil)
next
  case (Cons c cs)
  show ?case
  proof (cases "match_here (c # cs)")
    case (Some t)
    with Cons.prems have "t = tok" by simp
    with Some have "pattern_match (c # cs) 0 tok" by (simp add: match_here_iff)
    moreover have "tok' = tok" if "pattern_match (c # cs) 0 tok'" for tok'
      using match_here_unique [OF Some that] \<open>t = tok\<close> by simp
    ultimately have "pattern_match (c # cs) 0 tok \<and>
        (\<forall>j tok'. pattern_match (c # cs) j tok' \<longrightarrow> 0 \<le> j \<and> (j = 0 \<longrightarrow> tok' = tok))"
      by blast
    then show ?thesis ..
  next
    case None
    with Cons.prems have "FindStringSubmatch cs = Some tok" by simp
    from Cons.IH [OF this] obtain i where i: "pattern_match cs i tok"
      and least: "\<And>j tok'. pattern_match cs j tok' \<Longrightarrow> i \<le> j \<and> (j = i \<longrightarrow> tok' = tok)"
      by blast
    have "Suc i \<le> j \<and> (j = Suc i \<longrightarrow> tok' = tok)" if "pattern_match (c # cs) j tok'" for j tok'
    proof (cases j)
      case 0
      with that match_here_None [OF None] show ?thesis by blast
    next
      case (Suc k)
      with that least [of k tok'] show ?thesis by (simp add: pattern_match_Cons)
    qed
    moreover from i have "pattern_match (c # cs) (Suc i) tok"
      by (simp add: pattern_match_Cons)
    ultimately have "pattern_match (c # cs) (Suc i) tok \<and>
        (\<forall>j tok'. pattern_match (c # cs) j tok' \<longrightarrow> Suc i \<le> j \<and> (j = Suc i \<longrightarrow> tok' = tok))"
      by blast
    then show ?thesis ..
  qed
qed

lemma FindStringSubmatch_first_match: "FindStringSubmatch s = Some tok \<longleftrightarrow> first_match s tok"
proof
  assume "FindStringSubmatch s = Some tok"
  from FindStringSubmatch_Some [OF this] show "first_match s tok"
    unfolding first_match_def by blast
next
  assume "first_match s tok"
  then obtain i where i: "pattern_match s i tok"
    and least: "\<And>j tok'. pattern_match s j tok' \<Longrightarrow> i \<le> j"
    unfolding first_match_def by blast
  show "FindStringSubmatch s = Some tok"
  proof (cases "FindStringSubmatch s")
    case None
    from FindStringSubmatch_None [OF this] i show ?thesis by blast
  next
    case (Some t)
    from FindStringSubmatch_Some [OF this] obtain k where k: "pattern_match s k t"
      and kleast: "\<And>j tok'. pattern_match s j tok' \<Longrightarrow> k \<le> j \<and> (j = k \<longrightarrow> tok' = t)"
      by blast
    from least [OF k] kleast [OF i] have "i = k" by simp
    with kleast [OF i] Some show ?thesis by simp
  qed
qed

lemma FindStringSubmatch_no_match:
  "FindStringSubmatch s = None \<longleftrightarrow> (\<nexists>i tok. pattern_match s i tok)"
proof
  assume "FindStringSubmatch s = None"
  then show "\<nexists>i tok. pattern_match s i tok"
    using FindStringSubmatch_None by blast
next
  assume none: "\<nexists>i tok. pattern_match s i tok"
  show "FindStringSubmatch s = None"
  proof (cases "FindStringSubmatch s")
    case (Some t)
    from FindStringSubmatch_Some [OF this] none show ?thesis by blast
  qed simp
qed

lemma pattern_match_length: "pattern_match s i tok \<Longrightarrow> length tok = 11"
  unfolding pattern_match_def by blast

lemma first_match_length: "first_match s tok \<Longrightarrow> length tok = 11"
  unfolding first_match_def using pattern_match_length by blast

lemmas ExtractVideoId_eval =
  ExtractVideoId_def match_here_def markers_def HasPrefix_def token_here_def idchar_def
  terminators_def

text \<open>
  Claim C9: an input of exactly 11 bytes is returned unchanged, whatever its characters;
  for any other input the result is the token of the first match of the pattern, that is
  of the match that starts leftmost, or the empty string when nothing matches. The three
  examples of the specification evaluate as it says.
\<close>

theorem ExtractVideoId_spec:
  "(length s = 11 \<longrightarrow> ExtractVideoId s = s) \<and>
   (length s \<noteq> 11 \<longrightarrow>
      (ExtractVideoId s = tok \<longleftrightarrow>
         first_match s tok \<or> (tok = [] \<and> (\<nexists>i t. pattern_match s i t)))) \<and>
   ExtractVideoId ''https://youtu.be/dQw4w9WgXcQ'' = ''dQw4w9WgXcQ'' \<and>
   ExtractVideoId ''dQw4w9WgXcQ'' = ''dQw4w9WgXcQ'' \<and>
   ExtractVideoId ''not a url'' = []"
proof (intro conjI impI)
  show "ExtractVideoId s = s" if "length s = 11"
    using that by (simp add: ExtractVideoId_def)
  show "ExtractVideoId s = tok \<longleftrightarrow>
         first_match s tok \<or> (tok = [] \<and> (\<nexists>i t. pattern_match s i t))" if "length s \<noteq> 11"
  proof (cases "FindStringSubmatch s")
    case None
    then have "\<nexists>i t. pattern_match s i t" by (simp add: FindStringSubmatch_no_match)
    moreover from None have "\<not> first_match s tok"
      by (simp flip: FindStringSubmatch_first_match)
    ultimately show ?thesis using that None by (auto simp: ExtractVideoId_def)
  next
    case (Some t)
    then have "first_match s t" by (simp add: FindStringSubmatch_first_match)
    then have "t \<noteq> []" "\<exists>i t. pattern_match s i t"
      using first_match_length [of s t] by (auto simp: first_match_def)
    moreover have "first_match s tok \<longleftrightarrow> t = tok"
      using Some by (auto simp flip: FindStringSubmatch_first_match)
    ultimately show ?thesis using that Some by (auto simp: ExtractVideoId_def)
  qed
  show "ExtractVideoId ''https://youtu.be/dQw4w9WgXcQ'' = ''dQw4w9WgXcQ''"
    by (simp add: ExtractVideoId_eval)
  show "ExtractVideoId ''dQw4w9WgXcQ'' = ''dQw4w9WgXcQ''"
    by (simp add: ExtractVideoId_def)
  show "ExtractVideoId ''not a url'' = []"
    by (simp add: ExtractVideoId_eval)
qed

theorem ExtractVideoId_spec_witness:
  "length ''https://youtu.be/dQw4w9WgXcQ'' \<noteq> 11 \<and>
   ExtractVideoId ''https://youtu.be/dQw4w9WgXcQ'' = ''dQw4w9WgXcQ'' \<and>
   first_match ''https://youtu.be/dQw4w9WgXcQ'' ''dQw4w9WgXcQ'' \<and>
   length ''dQw4w9WgXc!'' = 11 \<and> ExtractVideoId ''dQw4w9WgXc!'' = ''dQw4w9WgXc!''"
proof -
  note t = ExtractVideoId_spec [of "''https://youtu.be/dQw4w9WgXcQ''" "''dQw4w9WgXcQ''"]
  have l: "length ''https://youtu.be/dQw4w9WgXcQ'' \<noteq> 11" by simp
  from t have e: "ExtractVideoId ''https://youtu.be/dQw4w9WgXcQ'' = ''dQw4w9WgXcQ''" by blast
  from t l e have f: "first_match ''https://youtu.be/dQw4w9WgXcQ'' ''dQw4w9WgXcQ''" by blast
  have l': "length ''dQw4w9WgXc!'' = 11" by simp
  from ExtractVideoId_spec [of "''dQw4w9WgXc!''"] l'
  have g: "ExtractVideoId ''dQw4w9WgXc!'' = ''dQw4w9WgXc!''" by blast
  show ?thesis by (intro conjI l e f l' g)
qed

section \<open>Properties of the fetcher\<close>

lemma tracks_loop_find:
  "tracks_loop tracks = (case find is_english tracks of None \<Rightarrow> [] | Some t \<Rightarrow> BaseURL t)"
  by (induction tracks) (simp_all add: is_english_def)

text \<open>
  Where the first English track, if there is one, has a base URL, the code takes the URL
  of the track the specification selects.
\<close>

theorem selectCaptionURL_spec:
  assumes "tracks \<noteq> []"
    and "case find is_english tracks of None \<Rightarrow> True | Some t \<Rightarrow> BaseURL t \<noteq> []"
  shows "map_option BaseURL (spec_selectTrack tracks) = Some (selectCaptionURL tracks)"
  using assms
  by (cases tracks)
     (auto simp: selectCaptionURL_def spec_selectTrack_def tracks_loop_find Let_def
        split: option.splits)

theorem selectCaptionURL_spec_witness:
  "[\<lparr>BaseURL = ''https://c/es'', VssID = ''.es'', LanguageCode = ''es''\<rparr>,
    \<lparr>BaseURL = ''https://c/en'', VssID = ''a.en'', LanguageCode = ''en''\<rparr>] \<noteq> [] \<and>
   selectCaptionURL
     [\<lparr>BaseURL = ''https://c/es'', VssID = ''.es'', LanguageCode = ''es''\<rparr>,
      \<lparr>BaseURL = ''https://c/en'', VssID = ''a.en'', LanguageCode = ''en''\<rparr>] = ''https://c/en'' \<and>
   selectCaptionURL
     [\<lparr>BaseURL = ''https://c/en'', VssID = ''a.en'', LanguageCode = ''en''\<rparr>,
      \<lparr>BaseURL = ''https://c/es'', VssID = ''.es'', LanguageCode = ''es''\<rparr>] = ''https://c/en'' \<and>
   selectCaptionURL
     [\<lparr>BaseURL = ''https://c/es'', VssID = ''.es'', LanguageCode = ''es''\<rparr>] = ''https://c/es''"
proof -
  let ?es = "\<lparr>BaseURL = ''https://c/es'', VssID = ''.es'', LanguageCode = ''es''\<rparr>"
  let ?en = "\<lparr>BaseURL = ''https://c/en'', VssID = ''a.en'', LanguageCode = ''en''\<rparr>"
  have en: "is_english ?en" and es: "\<not> is_english ?es"
    by (simp_all add: is_english_def HasPrefix_def)
  have a: "selectCaptionURL [?es, ?en] = ''https://c/en''"
    using selectCaptionURL_spec [of "[?es, ?en]"] en es by (simp add: spec_selectTrack_def)
  have b: "selectCaptionURL [?en, ?es] = ''https://c/en''"
    using selectCaptionURL_spec [of "[?en, ?es]"] en es by (simp add: spec_selectTrack_def)
  have c: "selectCaptionURL [?es] = ''https://c/es''"
    using selectCaptionURL_spec [of "[?es]"] en es by (simp add: spec_selectTrack_def)
  have n: "[?es, ?en] \<noteq> []" by simp
  show ?thesis by (intro conjI n a b c)
qed

lemma GetTranscript_no_tracks:
  "player_endpoint net videoID = Some (200, Some playerResp) \<Longrightarrow> CaptionTracks playerResp = [] \<Longrightarrow>
   \<not> ctx 0 \<Longrightarrow>
   GetTranscript lib net ctx videoID = ([PostPlayer videoID], Inl NoCaptionTracksAvailable)"
  by (simp add: GetTranscript_def getPlayerResponse_def extractCaptionTracks_def)

text \<open>
  Claim C8 says that the first English track is selected whenever there is one. The code
  falls back to the first track whenever \<^verbatim>\<open>captionURL\<close> is still empty after the loop,
  which is also the case when the English track it found has an empty base URL: with a
  Spanish track at \<^verbatim>\<open>u\<close> followed by an English track without a base URL, the
  specification selects the English track and the code requests the Spanish one, logging
  that no English captions were found.
\<close>

theorem selectCaptionURL_english_without_url:
  "spec_selectTrack
     [\<lparr>BaseURL = ''u'', VssID = ''.es'', LanguageCode = ''es''\<rparr>,
      \<lparr>BaseURL = [], VssID = ''.en'', LanguageCode = ''en''\<rparr>] =
     Some \<lparr>BaseURL = [], VssID = ''.en'', LanguageCode = ''en''\<rparr> \<and>
   selectCaptionURL
     [\<lparr>BaseURL = ''u'', VssID = ''.es'', LanguageCode = ''es''\<rparr>,
      \<lparr>BaseURL = [], VssID = ''.en'', LanguageCode = ''en''\<rparr>] = ''u''"
  by (simp add: spec_selectTrack_def is_english_def selectCaptionURL_def HasPrefix_def)

text \<open>What \<^verbatim>\<open>GetTranscript\<close> does depends on the context at the first request only.\<close>

lemma GetTranscript_context:
  "ctx 0 = ctx' 0 \<Longrightarrow> GetTranscript lib net ctx videoID = GetTranscript lib net ctx' videoID"
  by (simp add: GetTranscript_def getPlayerResponse_def)

lemmas sample_eval =
  sample_lib_def sample_network_def sample_xml_Decode_def sample_paragraphs_def
  sample_ParseFloat_def digit_value_def sample_TrimSpace_def sample_url_Parse_def

lemmas GetTranscript_eval =
  GetTranscript_def getPlayerResponse_def extractCaptionTracks_def selectCaptionURL_def
  parseTTMLTranscript_def parseTime_def HasSuffix_def HasPrefix_def TrimSuffix_def Let_def

text \<open>
  Claim C2 says that a cancellation between the two requests stops the fetch. The first
  request is built with the context; the second is a plain \<^verbatim>\<open>httpClient.Get\<close>. With a
  context that is live at the first request and cancelled from then on, the caption
  document is still requested and the transcript is returned.
\<close>

theorem GetTranscript_cancelled_between_stages:
  "\<not> cancelled_after 1 0 \<and> cancelled_after 1 1 \<and>
   GetTranscript sample_lib sample_network (cancelled_after 1) ''dQw4w9WgXcQ'' =
     ([PostPlayer ''dQw4w9WgXcQ'', GetCaption ''https://c/en&fmt=ttml''],
      Inr \<lparr>Title = ''A title'',
           Raw = Some \<lparr>Segments = [\<lparr>Text = ''hello'', StartTime = 0, Duration = 2\<rparr>,
                                   \<lparr>Text = ''world'', StartTime = 4, Duration = 5\<rparr>]\<rparr>,
           Formatted = []\<rparr>)"
  by (simp add: GetTranscript_eval sample_eval cancelled_after_def)

section \<open>Properties of the orchestration and of the endpoint\<close>

text \<open>
  Claim C3 says that a fetch that succeeds with zero usable segments is answered with
  status 404. The service returns \<^verbatim>\<open>ErrNoTranscript\<close> there, and the handler maps every
  error other than \<^verbatim>\<open>ErrInvalidURL\<close> to 500; its 404 branch is for a response without
  error whose \<^verbatim>\<open>Raw\<close> and \<^verbatim>\<open>Formatted\<close> are both nil. For a video whose caption document
  has no paragraph the endpoint answers 500.
\<close>

theorem handleGetTranscripts_no_segments:
  "GetTranscript sample_lib sample_network (\<lambda>n. False) ''silent_clip'' =
     ([PostPlayer ''silent_clip'', GetCaption ''https://c/none&fmt=ttml''],
      Inr \<lparr>Title = ''Silence'', Raw = Some \<lparr>Segments = []\<rparr>, Formatted = []\<rparr>) \<and>
   snd (snd (GetTranscripts sample_lib sample_network map_repository (\<lambda>n. False) (\<lambda>k. None)
      \<lparr>VideoURL = ''https://youtu.be/silent_clip'', VideoID = [], IntervalSeconds = 0\<rparr>)) =
     Inl ErrNoTranscript \<and>
   snd (snd (handleGetTranscripts sample_lib sample_network map_repository (\<lambda>n. False) (\<lambda>k. None)
      \<lparr>Method = ''GET'', query_videoUrl = ''https://youtu.be/silent_clip'', query_interval = []\<rparr>)) =
     \<lparr>statusCode = 500, body = ErrorResponse ''Internal Server Error'' ''Internal server error''\<rparr>"
proof -
  have g: "GetTranscript sample_lib sample_network (\<lambda>n. False) ''silent_clip'' =
     ([PostPlayer ''silent_clip'', GetCaption ''https://c/none&fmt=ttml''],
      Inr \<lparr>Title = ''Silence'', Raw = Some \<lparr>Segments = []\<rparr>, Formatted = []\<rparr>)"
    by (simp add: GetTranscript_eval sample_eval)
  have v: "IsValidUrl sample_lib ''https://youtu.be/silent_clip''"
    by (simp add: IsValidUrl_def sample_eval HasPrefix_def ToLower_def lower_char_def
          TrimPrefix_def validDomains_def)
  have x: "ExtractVideoId ''https://youtu.be/silent_clip'' = ''silent_clip''"
    by (simp add: ExtractVideoId_eval)
  have s: "GetTranscripts sample_lib sample_network map_repository (\<lambda>n. False) (\<lambda>k. None)
      \<lparr>VideoURL = ''https://youtu.be/silent_clip'', VideoID = [], IntervalSeconds = 0\<rparr> =
     ([CacheGet ''silent_clip'', PostPlayer ''silent_clip'', GetCaption ''https://c/none&fmt=ttml''],
      (\<lambda>k. None), Inl ErrNoTranscript)"
    by (simp add: GetTranscripts_def Let_def v x g no_segments_def map_repository_def)
  have p: "ParseFloat sample_lib [] = None"
    by (simp add: sample_lib_def sample_ParseFloat_def)
  have h: "handleGetTranscripts sample_lib sample_network map_repository (\<lambda>n. False) (\<lambda>k. None)
      \<lparr>Method = ''GET'', query_videoUrl = ''https://youtu.be/silent_clip'', query_interval = []\<rparr> =
     ([CacheGet ''silent_clip'', PostPlayer ''silent_clip'', GetCaption ''https://c/none&fmt=ttml''],
      (\<lambda>k. None),
      \<lparr>statusCode = 500, body = ErrorResponse ''Internal Server Error'' ''Internal server error''\<rparr>)"
    by (simp add: handleGetTranscripts_def Let_def p s writeJSONError_def StatusText_def)
  show ?thesis
    unfolding g s h by simp
qed

text \<open>Every error of the service is answered with 400 or 500, never with 404.\<close>

lemma handleGetTranscripts_error_status:
  "GetTranscripts lib net repo ctx st svcReq = (events, st', Inl err) \<Longrightarrow>
   query_videoUrl req = VideoURL svcReq \<Longrightarrow> VideoID svcReq = [] \<Longrightarrow>
   IntervalSeconds svcReq = (case ParseFloat lib (query_interval req) of None \<Rightarrow> 0 | Some v \<Rightarrow> v) \<Longrightarrow>
   Method req = ''GET'' \<Longrightarrow> VideoURL svcReq \<noteq> [] \<Longrightarrow>
   statusCode (snd (snd (handleGetTranscripts lib net repo ctx st req))) =
     (if err = ErrInvalidURL then 400 else 500)"
proof -
  assume a: "GetTranscripts lib net repo ctx st svcReq = (events, st', Inl err)"
    "query_videoUrl req = VideoURL svcReq" "VideoID svcReq = []"
    "IntervalSeconds svcReq = (case ParseFloat lib (query_interval req) of None \<Rightarrow> 0 | Some v \<Rightarrow> v)"
    "Method req = ''GET''" "VideoURL svcReq \<noteq> []"
  have "svcReq = \<lparr>VideoURL = query_videoUrl req, VideoID = [],
      IntervalSeconds = (case ParseFloat lib (query_interval req) of None \<Rightarrow> 0 | Some v \<Rightarrow> v)\<rparr>"
    using a(2-4) by simp
  with a(1) have "GetTranscripts lib net repo ctx st \<lparr>VideoURL = query_videoUrl req, VideoID = [],
      IntervalSeconds = (case ParseFloat lib (query_interval req) of None \<Rightarrow> 0 | Some v \<Rightarrow> v)\<rparr>
      = (events, st', Inl err)"
    by simp
  with a(2,5,6) show ?thesis
    by (simp add: handleGetTranscripts_def Let_def writeJSONError_def)
qed

section \<open>Properties of the cache\<close>

lemmas repository_eval =
  save_assign_get_def MemoryRepository_Save_def MemoryRepository_Get_def copy_response_def
  NewMemoryRepository_def read_response_def read_slice_def sample_heap_def

text \<open>
  Claim C1 says that what \<^verbatim>\<open>Get\<close> returns is independent of the caller's object, also for
  what is reached through it. \<^verbatim>\<open>Save\<close> and \<^verbatim>\<open>Get\<close> copy the struct only, so the copy's
  \<^verbatim>\<open>Raw\<close> is the caller's pointer: after a save, assigning
  \<^verbatim>\<open>t.Raw.Segments[0].Text = "changed"\<close> changes what the next \<^verbatim>\<open>Get\<close> returns. An
  assignment to the field \<^verbatim>\<open>t.Title\<close> does not.
\<close>

theorem save_assign_get_shares_segments:
  "save_assign_get sample_heap 0 ''dQw4w9WgXcQ'' (\<lambda>h. assign_segment_Text h 0 0 ''changed'') =
     Some (\<lparr>Title = ''A title'',
             Raw = Some \<lparr>Segments = [\<lparr>Text = ''hello'', StartTime = 0, Duration = 2\<rparr>]\<rparr>,
             Formatted = []\<rparr>,
           \<lparr>Title = ''A title'',
             Raw = Some \<lparr>Segments = [\<lparr>Text = ''changed'', StartTime = 0, Duration = 2\<rparr>]\<rparr>,
             Formatted = []\<rparr>) \<and>
   save_assign_get sample_heap 0 ''dQw4w9WgXcQ'' (\<lambda>h. assign_Title h 0 ''changed'') =
     Some (\<lparr>Title = ''A title'',
             Raw = Some \<lparr>Segments = [\<lparr>Text = ''hello'', StartTime = 0, Duration = 2\<rparr>]\<rparr>,
             Formatted = []\<rparr>,
           \<lparr>Title = ''A title'',
             Raw = Some \<lparr>Segments = [\<lparr>Text = ''hello'', StartTime = 0, Duration = 2\<rparr>]\<rparr>,
             Formatted = []\<rparr>)"
  by (simp add: repository_eval assign_segment_Text_def assign_Title_def)

text \<open>
  The copies do protect the fields of the struct itself: for any store, an assignment to
  the title of an allocated response after the save is not seen by \<^verbatim>\<open>Get\<close>.
\<close>

theorem save_assign_Title_get:
  assumes "videoID \<noteq> []" and "t < next_response h"
  shows "save_assign_get h t videoID (\<lambda>h'. assign_Title h' t title) =
           Some (read_response h t, read_response h t)"
  using assms
  by (simp add: save_assign_get_def MemoryRepository_Save_def MemoryRepository_Get_def
        copy_response_def NewMemoryRepository_def read_response_def assign_Title_def Let_def
        split: option.splits)

theorem save_assign_Title_get_witness:
  "''dQw4w9WgXcQ'' \<noteq> [] \<and> 0 < next_response sample_heap \<and>
   save_assign_get sample_heap 0 ''dQw4w9WgXcQ'' (\<lambda>h'. assign_Title h' 0 ''changed'') =
     Some (read_response sample_heap 0, read_response sample_heap 0)"
proof -
  have a: "''dQw4w9WgXcQ'' \<noteq> []" by simp
  have b: "0 < next_response sample_heap" by (simp add: sample_heap_def)
  from save_assign_Title_get [OF a b] a b show ?thesis by (intro conjI)
qed

section \<open>The domain check comes first\<close>

lemma IsValidUrl_empty_host:
  "(case url_Parse lib url of None \<Rightarrow> True | Some u \<Rightarrow> Host u = []) \<Longrightarrow> \<not> IsValidUrl lib url"
  by (auto simp: IsValidUrl_def ToLower_def TrimPrefix_def HasPrefix_def validDomains_def
        split: option.splits)

lemma GetTranscripts_events_valid:
  "GetTranscripts lib net repo ctx st req = (events, st', res) \<Longrightarrow> events \<noteq> [] \<Longrightarrow>
   IsValidUrl lib (VideoURL req)"
  by (auto simp: GetTranscripts_def Let_def split: if_splits)

text \<open>
  Claim C10: for a request whose \<^verbatim>\<open>VideoURL\<close> is an 11-character string that does not pass
  the domain check, as is every string for which \<^verbatim>\<open>url.Parse\<close> fails or finds no host,
  \<^verbatim>\<open>GetTranscripts\<close> returns \<^verbatim>\<open>ErrInvalidURL\<close> without a call of the cache or a request to
  the provider, whatever \<^verbatim>\<open>VideoID\<close> and interval the request carries, although
  \<^verbatim>\<open>ExtractVideoId\<close> returns such a string unchanged. Whenever any call or request is made,
  the URL has passed the domain check.
\<close>

theorem GetTranscripts_bare_identifier:
  assumes "length url = 11" and "\<not> IsValidUrl lib url"
  shows "GetTranscripts lib net repo ctx st \<lparr>VideoURL = url, VideoID = vid, IntervalSeconds = iv\<rparr> =
           ([], st, Inl ErrInvalidURL) \<and>
         ExtractVideoId url = url \<and>
         ((case url_Parse lib url' of None \<Rightarrow> True | Some u \<Rightarrow> Host u = []) \<longrightarrow>
            \<not> IsValidUrl lib url') \<and>
         (GetTranscripts lib net repo ctx st req = (events, st', res) \<and> events \<noteq> [] \<longrightarrow>
            IsValidUrl lib (VideoURL req))"
proof (intro conjI impI)
  show "GetTranscripts lib net repo ctx st \<lparr>VideoURL = url, VideoID = vid, IntervalSeconds = iv\<rparr> =
           ([], st, Inl ErrInvalidURL)"
    using assms(2) by (simp add: GetTranscripts_def)
  show "ExtractVideoId url = url"
    using assms(1) by (simp add: ExtractVideoId_def)
  show "\<not> IsValidUrl lib url'" if "case url_Parse lib url' of None \<Rightarrow> True | Some u \<Rightarrow> Host u = []"
    using that by (rule IsValidUrl_empty_host)
  show "IsValidUrl lib (VideoURL req)"
    if "GetTranscripts lib net repo ctx st req = (events, st', res) \<and> events \<noteq> []"
  proof -
    from that have a: "GetTranscripts lib net repo ctx st req = (events, st', res)"
      and b: "events \<noteq> []" by simp_all
    show ?thesis by (rule GetTranscripts_events_valid [OF a b])
  qed
qed

theorem GetTranscripts_bare_identifier_witness:
  "length ''dQw4w9WgXcQ'' = 11 \<and> \<not> IsValidUrl sample_lib ''dQw4w9WgXcQ'' \<and>
   GetTranscripts sample_lib sample_network map_repository (\<lambda>n. False) (\<lambda>k. None)
     \<lparr>VideoURL = ''dQw4w9WgXcQ'', VideoID = [], IntervalSeconds = 10\<rparr> =
     ([], (\<lambda>k. None), Inl ErrInvalidURL) \<and>
   ExtractVideoId ''dQw4w9WgXcQ'' = ''dQw4w9WgXcQ'' \<and>
   IsValidUrl sample_lib ''https://youtu.be/dQw4w9WgXcQ''"
proof -
  have l: "length ''dQw4w9WgXcQ'' = 11" by simp
  have h: "case url_Parse sample_lib ''dQw4w9WgXcQ'' of None \<Rightarrow> True | Some u \<Rightarrow> Host u = []"
    by (simp add: sample_lib_def sample_url_Parse_def HasPrefix_def)
  have n: "\<not> IsValidUrl sample_lib ''dQw4w9WgXcQ''"
    using h by (rule IsValidUrl_empty_host)
  note t = GetTranscripts_bare_identifier [OF l n, of sample_network map_repository
      "\<lambda>n. False" "\<lambda>k. None" "[]" 10]
  from t have g: "GetTranscripts sample_lib sample_network map_repository (\<lambda>n. False) (\<lambda>k. None)
     \<lparr>VideoURL = ''dQw4w9WgXcQ'', VideoID = [], IntervalSeconds = 10\<rparr> =
     ([], (\<lambda>k. None), Inl ErrInvalidURL)"
    by (rule conjunct1)
  have e: "ExtractVideoId ''dQw4w9WgXcQ'' = ''dQw4w9WgXcQ''"
    by (rule t [THEN conjunct2, THEN conjunct1])
  have v: "IsValidUrl sample_lib ''https://youtu.be/dQw4w9WgXcQ''"
    by (simp add: IsValidUrl_def sample_lib_def sample_url_Parse_def HasPrefix_def ToLower_def
          lower_char_def TrimPrefix_def validDomains_def)
  show ?thesis by (intro conjI l n g e v)
qed

end
